theory Spec2Isabelle
  imports Complex_Main
begin

section \<open>Values of the wire format\<close>

text \<open>
  A JavaScript number, as far as the server looks at it: a finite value (kept as the
  exact rational it denotes; the rounding of IEEE-754 doubles is outside the model),
  an infinity with its sign (\<open>True\<close> for the negative one), or NaN.
\<close>

datatype jsnum = Fin rat | Infinite bool | NaN

text \<open>
  The values \<open>toPlist\<close> tells apart with \<open>typeof\<close>, \<open>Array.isArray\<close> and the
  comparison with \<open>null\<close>. An object is the list of its entries in the order
  \<open>Object.entries\<close> yields them.
\<close>

datatype jsval =
    JUndefined
  | JNull
  | JBool bool
  | JNum jsnum
  | JStr string
  | JArr "jsval list"
  | JObj "(string \<times> jsval) list"

text \<open>\<open>x || y\<close> on values: the truthiness of \<open>x\<close> decides.\<close>

fun js_truthy :: "jsval \<Rightarrow> bool" where
  "js_truthy JUndefined = False"
| "js_truthy JNull = False"
| "js_truthy (JBool b) = b"
| "js_truthy (JNum (Fin r)) = (r \<noteq> 0)"
| "js_truthy (JNum (Infinite _)) = True"
| "js_truthy (JNum NaN) = False"
| "js_truthy (JStr s) = (s \<noteq> [])"
| "js_truthy (JArr _) = True"
| "js_truthy (JObj _) = True"

section \<open>Plist helpers\<close>

text \<open>
  Strings are lists of 8-bit characters: the model covers the JavaScript strings whose
  code units are below 256.
\<close>

subsection \<open>Conversion of a string to a number\<close>

text \<open>
  \<open>Number(value)\<close> on a string follows the grammar of string numeric literals: white
  space around the literal is dropped, the empty literal is 0, a literal is one of the
  unsigned forms \<open>0x\<close>, \<open>0o\<close>, \<open>0b\<close> or a signed decimal literal (digits with an
  optional fraction and exponent, or \<open>Infinity\<close>), and every other string is NaN. The
  white space of this grammar and the class \<open>\s\<close> of regular expressions are the same
  characters.
\<close>

definition is_space :: "char \<Rightarrow> bool" where
  "is_space c = (of_char c \<in> {9, 10, 11, 12, 13, 32, 160 :: nat})"

definition is_digit :: "char \<Rightarrow> bool" where
  "is_digit c = (48 \<le> (of_char c :: nat) \<and> (of_char c :: nat) \<le> 57)"

definition digit_val :: "char \<Rightarrow> nat" where
  "digit_val c = of_char c - 48"

definition digits_val :: "string \<Rightarrow> nat" where
  "digits_val ds = foldl (\<lambda>acc c. 10 * acc + digit_val c) 0 ds"

definition hex_val :: "char \<Rightarrow> nat option" where
  "hex_val c =
    (let n = (of_char c :: nat) in
     if 48 \<le> n \<and> n \<le> 57 then Some (n - 48)
     else if 97 \<le> n \<and> n \<le> 102 then Some (n - 87)
     else if 65 \<le> n \<and> n \<le> 70 then Some (n - 55)
     else None)"

definition radix_val :: "nat \<Rightarrow> string \<Rightarrow> nat option" where
  "radix_val b ds =
    (if ds \<noteq> [] \<and> list_all (\<lambda>c. case hex_val c of None \<Rightarrow> False | Some d \<Rightarrow> d < b) ds
     then Some (foldl (\<lambda>acc c. b * acc + the (hex_val c)) 0 ds)
     else None)"

fun nondecimal :: "string \<Rightarrow> nat option" where
  "nondecimal (z # x # ds) =
    (if z = CHR ''0'' \<and> (x = CHR ''x'' \<or> x = CHR ''X'') then radix_val 16 ds
     else if z = CHR ''0'' \<and> (x = CHR ''o'' \<or> x = CHR ''O'') then radix_val 8 ds
     else if z = CHR ''0'' \<and> (x = CHR ''b'' \<or> x = CHR ''B'') then radix_val 2 ds
     else None)"
| "nondecimal _ = None"

text \<open>The exponent part, or nothing, up to the end of the literal.\<close>

definition exponent_part :: "string \<Rightarrow> int option" where
  "exponent_part s =
    (case s of
       [] \<Rightarrow> Some 0
     | c # r \<Rightarrow>
         if c = CHR ''e'' \<or> c = CHR ''E'' then
           (let (neg, ds) = (case r of
                  d # q \<Rightarrow> if d = CHR ''-'' then (True, q) else if d = CHR ''+'' then (False, q) else (False, r)
                | [] \<Rightarrow> (False, r))
            in if ds \<noteq> [] \<and> list_all is_digit ds
               then Some (if neg then - int (digits_val ds) else int (digits_val ds))
               else None)
         else None)"

definition pow10 :: "int \<Rightarrow> rat" where
  "pow10 e = (if 0 \<le> e then 10 ^ nat e else 1 / 10 ^ nat (- e))"

definition unsigned_decimal :: "string \<Rightarrow> jsnum" where
  "unsigned_decimal s =
    (if s = ''Infinity'' then Infinite False
     else
       (let ip = takeWhile is_digit s;
            r1 = dropWhile is_digit s;
            fp = (case r1 of c # q \<Rightarrow> if c = CHR ''.'' then takeWhile is_digit q else [] | [] \<Rightarrow> []);
            r2 = (case r1 of c # q \<Rightarrow> if c = CHR ''.'' then dropWhile is_digit q else r1 | [] \<Rightarrow> [])
        in if ip = [] \<and> fp = [] then NaN
           else (case exponent_part r2 of
                   None \<Rightarrow> NaN
                 | Some e \<Rightarrow>
                     Fin ((of_nat (digits_val ip) + of_nat (digits_val fp) / 10 ^ length fp) * pow10 e))))"

fun negate :: "jsnum \<Rightarrow> jsnum" where
  "negate (Fin r) = Fin (- r)"
| "negate (Infinite neg) = Infinite (\<not> neg)"
| "negate NaN = NaN"

definition trim :: "string \<Rightarrow> string" where
  "trim s = rev (dropWhile is_space (rev (dropWhile is_space s)))"

definition js_Number :: "string \<Rightarrow> jsnum" where
  "js_Number s =
    (let t = trim s in
     if t = [] then Fin 0
     else (case nondecimal t of
             Some n \<Rightarrow> Fin (of_nat n)
           | None \<Rightarrow>
               (case t of
                  c # r \<Rightarrow>
                    if c = CHR ''+'' then unsigned_decimal r
                    else if c = CHR ''-'' then negate (unsigned_decimal r)
                    else unsigned_decimal t
                | [] \<Rightarrow> NaN)))"

subsection \<open>Objects\<close>

text \<open>
  The own keys of an object are ordered: first the array indices (the canonical decimal
  texts of the integers from 0 to \<open>2^32 - 2\<close>) in ascending order, then the other keys
  in the order of their creation.
\<close>

definition array_index :: "string \<Rightarrow> nat option" where
  "array_index k =
    (if k \<noteq> [] \<and> list_all is_digit k \<and> (k = ''0'' \<or> hd k \<noteq> CHR ''0'') \<and> digits_val k \<le> 4294967294
     then Some (digits_val k) else None)"

text \<open>A new array index goes before the first key that is a larger index or no index.\<close>

fun insert_index :: "nat \<Rightarrow> string \<times> jsval \<Rightarrow> (string \<times> jsval) list \<Rightarrow> (string \<times> jsval) list" where
  "insert_index n kv [] = [kv]"
| "insert_index n kv (p # ps) =
     (case array_index (fst p) of
        Some m \<Rightarrow> if m < n then p # insert_index n kv ps else kv # p # ps
      | None \<Rightarrow> kv # p # ps)"

text \<open>
  Defining the own property \<open>k\<close> of an object, as a spread does for each entry it
  copies: an existing key keeps its place and takes the new value, a new key takes
  its place in the order of the keys.
\<close>

definition obj_set :: "string \<Rightarrow> jsval \<Rightarrow> (string \<times> jsval) list \<Rightarrow> (string \<times> jsval) list" where
  "obj_set k v kvs =
    (if k \<in> set (map fst kvs) then map (\<lambda>p. if fst p = k then (k, v) else p) kvs
     else (case array_index k of
             Some n \<Rightarrow> insert_index n (k, v) kvs
           | None \<Rightarrow> kvs @ [(k, v)]))"

text \<open>The spread \<open>{...base, ...extra}\<close>: the entries of \<open>extra\<close> defined in order.\<close>

definition obj_spread :: "(string \<times> jsval) list \<Rightarrow> (string \<times> jsval) list \<Rightarrow> (string \<times> jsval) list" where
  "obj_spread base extra = fold (\<lambda>(k, v) acc. obj_set k v acc) extra base"

subsection \<open>Conversion of a number to a string\<close>

definition digit_char :: "nat \<Rightarrow> char" where
  "digit_char d = char_of (48 + d)"

fun digits_of :: "nat \<Rightarrow> string" where
  "digits_of n = (if n < 10 then [digit_char n] else digits_of (n div 10) @ [digit_char (n mod 10)])"

declare digits_of.simps [simp del]

definition int_text :: "int \<Rightarrow> string" where
  "int_text n = (if n < 0 then CHR ''-'' # digits_of (nat (- n)) else digits_of (nat n))"

text \<open>\<open>Number.isInteger\<close>.\<close>

fun isInteger :: "jsnum \<Rightarrow> bool" where
  "isInteger (Fin r) = (r = of_int \<lfloor>r\<rfloor>)"
| "isInteger (Infinite _) = False"
| "isInteger NaN = False"

text \<open>
  The text \<open>${value}\<close> of a number. An integer of the safe range (up to \<open>2^53 - 1\<close> in
  size) is written with all its decimal digits. The text of any other finite number
  (shortest digits of the double, digits after a point, an exponent) is JavaScript's
  and is not computed here: \<open>numText\<close> stands for it.
\<close>

fun number_text :: "(jsnum \<Rightarrow> string) \<Rightarrow> jsnum \<Rightarrow> string" where
  "number_text numText (Fin r) =
     (if r = of_int \<lfloor>r\<rfloor> \<and> \<bar>r\<bar> \<le> 9007199254740991 then int_text \<lfloor>r\<rfloor> else numText (Fin r))"
| "number_text numText (Infinite neg) = (if neg then ''-Infinity'' else ''Infinity'')"
| "number_text numText NaN = ''NaN''"

subsection \<open>\<open>toPlist\<close>\<close>

text \<open>\<open>s.replace(/c/g, rep)\<close> for a single character \<open>c\<close>.\<close>

definition replace_all :: "char \<Rightarrow> string \<Rightarrow> string \<Rightarrow> string" where
  "replace_all c rep s = concat (map (\<lambda>x. if x = c then rep else [x]) s)"

definition escape_xml :: "string \<Rightarrow> string" where
  "escape_xml value =
     replace_all (CHR ''>'') ''&gt;'' (replace_all (CHR ''<'') ''&lt;'' (replace_all (CHR ''&'') ''&amp;'' value))"

text \<open>
  \<open>convertValue\<close>. The last line of the source, \<open>String(value)\<close>, is for values that
  are none of the above (functions, symbols, big integers); \<open>jsval\<close> has none.
\<close>

fun convertValue :: "(jsnum \<Rightarrow> string) \<Rightarrow> jsval \<Rightarrow> string" where
  "convertValue numText JNull = ''<string></string>''"
| "convertValue numText JUndefined = ''<string></string>''"
| "convertValue numText (JBool b) = ''<'' @ (if b then ''true'' else ''false'') @ ''/>''"
| "convertValue numText (JNum x) =
     (if isInteger x then ''<integer>'' @ number_text numText x @ ''</integer>''
      else ''<real>'' @ number_text numText x @ ''</real>'')"
| "convertValue numText (JStr s) = ''<string>'' @ escape_xml s @ ''</string>''"
| "convertValue numText (JArr vs) = ''<array>'' @ concat (map (convertValue numText) vs) @ ''</array>''"
| "convertValue numText (JObj kvs) =
     ''<dict>'' @ concat (map (\<lambda>(k, v). ''<key>'' @ k @ ''</key>'' @ convertValue numText v) kvs) @ ''</dict>''"

text \<open>The three lines of the template before the value, each with its line feed.\<close>

definition plist_header :: string where
  \<open>plist_header =
     ''<?xml version="1.0" encoding="UTF-8"?>'' @ [CHR 0x0A] @
     ''<!DOCTYPE plist PUBLIC "-//Apple//DTD PLIST 1.0//EN" "http://www.apple.com/DTDs/PropertyList-1.0.dtd">'' @ [CHR 0x0A] @
     ''<plist version="1.0">'' @ [CHR 0x0A]\<close>

definition toPlist :: "(jsnum \<Rightarrow> string) \<Rightarrow> (string \<times> jsval) list \<Rightarrow> string" where
  "toPlist numText obj = plist_header @ convertValue numText (JObj obj) @ [CHR 0x0A] @ ''</plist>''"

subsection \<open>\<open>parsePlist\<close>\<close>

text \<open>The rest of \<open>s\<close> behind the literal \<open>p\<close>, when \<open>s\<close> starts with it.\<close>

fun strip_prefix :: "string \<Rightarrow> string \<Rightarrow> string option" where
  "strip_prefix [] s = Some s"
| "strip_prefix (p # ps) [] = None"
| "strip_prefix (p # ps) (c # cs) = (if p = c then strip_prefix ps cs else None)"

text \<open>The first place of the literal \<open>p\<close> in a string: the text before it and behind it.\<close>

fun search :: "string \<Rightarrow> string \<Rightarrow> (string \<times> string) option" where
  "search p [] = (case strip_prefix p [] of Some r \<Rightarrow> Some ([], r) | None \<Rightarrow> None)"
| "search p (c # cs) =
     (case strip_prefix p (c # cs) of
        Some r \<Rightarrow> Some ([], r)
      | None \<Rightarrow> (case search p cs of Some (b, r) \<Rightarrow> Some (c # b, r) | None \<Rightarrow> None))"

text \<open>
  \<open>xml.match(/<dict>([\s\S]*?)<\/dict>/)\<close>, group 1: the match starts at the first
  \<open><dict>\<close> (a later start can only match if the first one does) and, the group being
  lazy, ends at the first \<open></dict>\<close> behind it.
\<close>

definition dict_content :: "string \<Rightarrow> string option" where
  "dict_content xml =
     (case search ''<dict>'' xml of
        None \<Rightarrow> None
      | Some (before, r) \<Rightarrow> (case search ''</dict>'' r of None \<Rightarrow> None | Some (content, after) \<Rightarrow> Some content))"

text \<open>
  One attempt of \<open>keyRegex\<close> at the start of a string. Every repetition of the
  expression is a greedy run of a character class that is followed by a character
  outside the class, so no shorter run can match and the attempt is deterministic.
  The results are the groups 3 and 4 and the text behind the match.

  The second alternative, \<open><(true|false)\/>\<close>:
\<close>

definition match_literal :: "string \<Rightarrow> (string option \<times> string option \<times> string) option" where
  "match_literal s =
     (case strip_prefix ''<true/>'' s of
        Some r \<Rightarrow> Some (None, Some ''true'', r)
      | None \<Rightarrow> (case strip_prefix ''<false/>'' s of
                   Some r \<Rightarrow> Some (None, Some ''false'', r)
                 | None \<Rightarrow> None))"

text \<open>The first alternative, \<open><[^>]+>([^<]*)<\/[^>]+>\<close>:\<close>

definition match_element :: "string \<Rightarrow> (string option \<times> string option \<times> string) option" where
  "match_element s =
     (case s of
        [] \<Rightarrow> None
      | c # t \<Rightarrow>
          if c \<noteq> CHR ''<'' then None
          else
            (let tag = takeWhile (\<lambda>x. x \<noteq> CHR ''>'') t; r1 = dropWhile (\<lambda>x. x \<noteq> CHR ''>'') t
             in if tag = [] \<or> r1 = [] then None
                else
                  (let r2 = tl r1;
                       txt = takeWhile (\<lambda>x. x \<noteq> CHR ''<'') r2;
                       r3 = dropWhile (\<lambda>x. x \<noteq> CHR ''<'') r2
                   in case strip_prefix ''</'' r3 of
                        None \<Rightarrow> None
                      | Some r4 \<Rightarrow>
                          (let ctag = takeWhile (\<lambda>x. x \<noteq> CHR ''>'') r4;
                               r5 = dropWhile (\<lambda>x. x \<noteq> CHR ''>'') r4
                           in if ctag = [] \<or> r5 = [] then None
                              else Some (Some txt, None, tl r5)))))"

text \<open>The whole expression: \<open><key>([^<]+)<\/key>\s*\<close>, then the first alternative that matches.\<close>

definition match_entry :: "string \<Rightarrow> (string \<times> string option \<times> string option \<times> string) option" where
  "match_entry s =
     (case strip_prefix ''<key>'' s of
        None \<Rightarrow> None
      | Some r \<Rightarrow>
          (let key = takeWhile (\<lambda>x. x \<noteq> CHR ''<'') r; r1 = dropWhile (\<lambda>x. x \<noteq> CHR ''<'') r
           in if key = [] then None
              else (case strip_prefix ''</key>'' r1 of
                      None \<Rightarrow> None
                    | Some r2 \<Rightarrow>
                        (let v = dropWhile is_space r2
                         in case match_element v of
                              Some (m3, m4, rest) \<Rightarrow> Some (key, m3, m4, rest)
                            | None \<Rightarrow> (case match_literal v of
                                         Some (m3, m4, rest) \<Rightarrow> Some (key, m3, m4, rest)
                                       | None \<Rightarrow> None)))))"

text \<open>
  The assignment \<open>result[key] = v\<close> of a boolean, a number or a string to the plain
  object \<open>result\<close>, whose own properties the map holds. The key \<open>__proto__\<close> is
  the accessor of \<open>Object.prototype\<close>: its setter ignores a value that is neither an
  object nor \<open>null\<close>, and no own property is made. Every other key becomes an own
  property, or takes the new value.
\<close>

definition assign_primitive :: "string \<Rightarrow> jsval \<Rightarrow> (string \<rightharpoonup> jsval) \<Rightarrow> (string \<rightharpoonup> jsval)" where
  "assign_primitive key v result = (if key = ''__proto__'' then result else result(key \<mapsto> v))"

text \<open>The body of the loop: what one match stores in \<open>result\<close>.\<close>

definition store_match :: "string \<Rightarrow> string option \<Rightarrow> string option \<Rightarrow> (string \<rightharpoonup> jsval) \<Rightarrow> (string \<rightharpoonup> jsval)" where
  "store_match key m3 m4 result =
     (case m4 of
        Some b \<Rightarrow> assign_primitive key (JBool (b = ''true'')) result
      | None \<Rightarrow>
          (case m3 of
             Some value \<Rightarrow>
               (let num = js_Number value
                in assign_primitive key (if num = NaN then JStr value else JNum num) result)
           | None \<Rightarrow> result))"

text \<open>A match is not empty, so the loop goes on with a shorter text.\<close>

lemma strip_prefix_length: "strip_prefix p s = Some r \<Longrightarrow> length r + length p = length s"
  by (induction p s rule: strip_prefix.induct) (auto split: if_splits)

lemma match_literal_length: "match_literal s = Some (m3, m4, r) \<Longrightarrow> length r < length s"
  by (auto simp: match_literal_def split: option.splits dest!: strip_prefix_length)

lemma length_dropWhile_tl: "length (tl (dropWhile P xs)) \<le> length xs"
  by (metis diff_le_self length_dropWhile_le length_tl order_trans)

lemma match_element_length: "match_element s = Some (m3, m4, r) \<Longrightarrow> length r < length s"
proof -
  assume a: "match_element s = Some (m3, m4, r)"
  then obtain t where s: "s = CHR ''<'' # t"
    by (cases s) (auto simp: match_element_def split: if_splits)
  let ?r2 = "tl (dropWhile (\<lambda>x. x \<noteq> CHR ''>'') t)"
  let ?r3 = "dropWhile (\<lambda>x. x \<noteq> CHR ''<'') ?r2"
  from a s obtain r4 where r4: "strip_prefix ''</'' ?r3 = Some r4"
    and r: "r = tl (dropWhile (\<lambda>x. x \<noteq> CHR ''>'') r4)"
    by (auto simp: match_element_def Let_def split: if_splits option.splits)
  have "length r \<le> length r4" unfolding r by (rule length_dropWhile_tl)
  also have "\<dots> \<le> length ?r3" using strip_prefix_length[OF r4] by simp
  also have "\<dots> \<le> length ?r2" by (rule length_dropWhile_le)
  also have "\<dots> \<le> length t" by (rule length_dropWhile_tl)
  finally show ?thesis using s by simp
qed

lemma match_entry_length: "match_entry s = Some (k, m3, m4, r) \<Longrightarrow> length r < length s"
proof -
  assume a: "match_entry s = Some (k, m3, m4, r)"
  then obtain s1 where s1: "strip_prefix ''<key>'' s = Some s1"
    by (auto simp: match_entry_def split: option.splits)
  let ?r1 = "dropWhile (\<lambda>x. x \<noteq> CHR ''<'') s1"
  from a s1 obtain r2 where r2: "strip_prefix ''</key>'' ?r1 = Some r2"
    by (auto simp: match_entry_def Let_def split: option.splits if_splits)
  let ?v = "dropWhile is_space r2"
  from a s1 r2 have "match_element ?v = Some (m3, m4, r) \<or> match_literal ?v = Some (m3, m4, r)"
    by (auto simp: match_entry_def Let_def split: option.splits if_splits)
  then have "length r < length ?v"
    using match_element_length match_literal_length by blast
  also have "\<dots> \<le> length r2" by (simp add: length_dropWhile_le)
  also have "\<dots> \<le> length ?r1" using strip_prefix_length[OF r2] by simp
  also have "\<dots> \<le> length s1" by (simp add: length_dropWhile_le)
  also have "\<dots> \<le> length s" using strip_prefix_length[OF s1] by simp
  finally show ?thesis .
qed

text \<open>
  The loop \<open>while ((match = keyRegex.exec(content)) !== null)\<close>: the expression has the
  flag \<open>g\<close>, so each search starts behind the last match, tries every start in turn
  and ends the loop when no start is left.
\<close>

function scan_entries :: "string \<Rightarrow> (string \<rightharpoonup> jsval) \<Rightarrow> (string \<rightharpoonup> jsval)" where
  "scan_entries [] result = result"
| "scan_entries (c # cs) result =
     (case match_entry (c # cs) of
        Some (key, m3, m4, rest) \<Rightarrow> scan_entries rest (store_match key m3 m4 result)
      | None \<Rightarrow> scan_entries cs result)"
  by pat_completeness auto
termination
proof (relation "measure (\<lambda>(s, result). length s)")
  show "wf (measure (\<lambda>(s, result). length s))" by simp
next
  fix c cs result
  show "((cs, result), (c # cs, result)) \<in> measure (\<lambda>(s, result). length s)" by simp
next
  fix c cs and result :: "string \<rightharpoonup> jsval" and x2 key y m3 ya m4 rest
  assume "match_entry (c # cs) = Some x2" "(key, y) = x2" "(m3, ya) = y" "(m4, rest) = ya"
  then have "match_entry (c # cs) = Some (key, m3, m4, rest)" by simp
  from match_entry_length[OF this]
  show "((rest, store_match key m3 m4 result), (c # cs, result)) \<in> measure (\<lambda>(s, result). length s)"
    by simp
qed

definition parsePlist :: "string \<Rightarrow> (string \<rightharpoonup> jsval)" where
  "parsePlist xml = (case dict_content xml of None \<Rightarrow> Map.empty | Some content \<Rightarrow> scan_entries content Map.empty)"

section \<open>Types of the server\<close>

datatype enrollment_status = EnrollPending | Enrolled | Unenrolled

datatype command_status = Pending | Sent | Acknowledged | Completed | Failed

text \<open>
  Interface \<open>MDMDevice\<close>. The field \<open>id\<close> is \<open>dev_id\<close> here; dates are points of
  time (\<open>nat\<close>), an optional field is an \<open>option\<close>. The attributes that
  \<open>handleAuthenticate\<close> copies from the message are declared as strings, but nothing
  checks it: they hold whatever value the decoder produced, so they are values here.
\<close>

record MDMDevice =
  dev_id :: string
  udid :: string
  serialNumber :: jsval
  deviceName :: jsval
  modelName :: jsval
  model :: jsval
  osVersion :: jsval
  buildVersion :: jsval
  productName :: jsval
  deviceCapacity :: "jsnum option"
  availableCapacity :: "jsnum option"
  batteryLevel :: "jsnum option"
  wifiMac :: "string option"
  bluetoothMac :: "string option"
  isSupervised :: bool
  enrollmentStatus :: enrollment_status
  enrolledAt :: "nat option"
  lastCheckIn :: "nat option"
  pushToken :: "string option"
  pushMagic :: "string option"

text \<open>
  The decoded status report of the command channel, at the type the handler casts it to:
  \<open>{ Status: string; UDID: string; CommandUUID?: string; [key: string]: unknown }\<close>.
\<close>

record StatusReport =
  Status :: string
  reportUDID :: string
  CommandUUID :: "string option"
  otherKeys :: "(string \<times> jsval) list"

text \<open>Interface \<open>MDMCommand\<close>; its field \<open>id\<close> is \<open>cmd_id\<close> here.\<close>

record MDMCommand =
  cmd_id :: string
  deviceId :: string
  commandType :: string
  payload :: "(string \<times> jsval) list option"
  status :: command_status
  createdAt :: nat
  sentAt :: "nat option"
  completedAt :: "nat option"
  response :: "StatusReport option"
  errorMessage :: "string option"

text \<open>
  Interface \<open>CheckInMessage\<close>. The handler gets the result of \<open>parsePlist\<close> through
  the cast \<open>as unknown as CheckInMessage\<close>, which checks nothing. The device attributes
  are therefore the decoded values themselves: a string, a number where the text
  reads as one, a boolean, and \<open>JUndefined\<close> where the key is missing.
\<close>

record CheckInMessage =
  MessageType :: string
  Topic :: string
  UDID :: string
  Token :: "string option"
  PushMagic :: "string option"
  OSVersion :: jsval
  BuildVersion :: jsval
  ProductName :: jsval
  SerialNumber :: jsval
  DeviceName :: jsval
  Model :: jsval
  ModelName :: jsval

text \<open>The in-memory storage: the two global maps \<open>devices\<close> and \<open>commandQueue\<close>.\<close>

record server =
  devices :: "string \<rightharpoonup> MDMDevice"
  commandQueue :: "string \<rightharpoonup> MDMCommand list"

definition init :: server where
  "init = \<lparr>devices = Map.empty, commandQueue = Map.empty\<rparr>"

text \<open>
  What a handler sends: \<open>SendXml v\<close> is \<open>res.type('application/xml').send(toPlist(v))\<close>,
  \<open>SendStatus n\<close> is \<open>res.status(n).send()\<close>, \<open>SendCommand c\<close> is \<open>res.json(c)\<close> and
  \<open>SendError n msg\<close> is \<open>res.status(n).json({ error: msg })\<close>.
\<close>

datatype reply =
    SendXml jsval
  | SendStatus nat
  | SendCommand MDMCommand
  | SendError nat string

section \<open>Check-in endpoint\<close>

text \<open>
  \<open>x || ''\<close>: the value itself when it is truthy, the empty string when it is
  missing, empty, zero, NaN, \<open>false\<close> or \<open>null\<close>.
\<close>

definition or_empty :: "jsval \<Rightarrow> jsval" where
  "or_empty x = (if js_truthy x then x else JStr [])"

text \<open>\<open>uuid\<close> is the value \<open>uuidv4()\<close> returns in this call.\<close>

definition handleAuthenticate :: "string \<Rightarrow> CheckInMessage \<Rightarrow> server \<Rightarrow> server \<times> reply" where
  "handleAuthenticate uuid message s =
    (let device = \<lparr>
           dev_id = uuid,
           udid = UDID message,
           serialNumber = or_empty (SerialNumber message),
           deviceName = or_empty (DeviceName message),
           modelName = or_empty (ModelName message),
           model = or_empty (Model message),
           osVersion = or_empty (OSVersion message),
           buildVersion = or_empty (BuildVersion message),
           productName = or_empty (ProductName message),
           deviceCapacity = None,
           availableCapacity = None,
           batteryLevel = None,
           wifiMac = None,
           bluetoothMac = None,
           isSupervised = False,
           enrollmentStatus = EnrollPending,
           enrolledAt = None,
           lastCheckIn = None,
           pushToken = None,
           pushMagic = None\<rparr>
     in (s\<lparr>devices := (devices s)(UDID message \<mapsto> device)\<rparr>, SendXml (JObj [])))"

text \<open>\<open>now\<close> is the value of \<open>new Date()\<close> during this call.\<close>

definition handleTokenUpdate :: "nat \<Rightarrow> CheckInMessage \<Rightarrow> server \<Rightarrow> server \<times> reply" where
  "handleTokenUpdate now message s =
    (case devices s (UDID message) of
       Some device \<Rightarrow>
         (s\<lparr>devices := (devices s)(UDID message \<mapsto>
              device\<lparr>pushToken := Token message,
                     pushMagic := PushMagic message,
                     enrollmentStatus := Enrolled,
                     enrolledAt := Some now,
                     lastCheckIn := Some now\<rparr>)\<rparr>,
          SendXml (JObj []))
     | None \<Rightarrow> (s, SendXml (JObj [])))"

definition handleCheckOut :: "CheckInMessage \<Rightarrow> server \<Rightarrow> server \<times> reply" where
  "handleCheckOut message s =
    (case devices s (UDID message) of
       Some device \<Rightarrow>
         (s\<lparr>devices := (devices s)(UDID message \<mapsto> device\<lparr>enrollmentStatus := Unenrolled\<rparr>)\<rparr>,
          SendXml (JObj []))
     | None \<Rightarrow> (s, SendXml (JObj [])))"

text \<open>\<open>app.put('/checkin')\<close> on the decoded message: the \<open>switch\<close> on its type.\<close>

definition checkin_put :: "string \<Rightarrow> nat \<Rightarrow> CheckInMessage \<Rightarrow> server \<Rightarrow> server \<times> reply" where
  "checkin_put uuid now message s =
    (if MessageType message = ''Authenticate'' then handleAuthenticate uuid message s
     else if MessageType message = ''TokenUpdate'' then handleTokenUpdate now message s
     else if MessageType message = ''CheckOut'' then handleCheckOut message s
     else (s, SendStatus 400))"

section \<open>Command endpoint\<close>

text \<open>\<open>commandQueue.get(udid) || []\<close>.\<close>

definition queue_of :: "server \<Rightarrow> string \<Rightarrow> MDMCommand list" where
  "queue_of s u = (case commandQueue s u of None \<Rightarrow> [] | Some cs \<Rightarrow> cs)"

definition getNextCommand :: "server \<Rightarrow> string \<Rightarrow> MDMCommand option" where
  "getNextCommand s u = find (\<lambda>cmd. status cmd = Pending) (queue_of s u)"

definition buildCommandRequest :: "MDMCommand \<Rightarrow> jsval" where
  "buildCommandRequest command =
    JObj [(''CommandUUID'', JStr (cmd_id command)),
          (''Command'', JObj (obj_spread [(''RequestType'', JStr (commandType command))]
                                (case payload command of None \<Rightarrow> [] | Some p \<Rightarrow> p)))]"

text \<open>
  The handlers assign to the fields of the object \<open>find\<close> returned, which is the array's
  own element: the first element that satisfies the test is the one that changes.
\<close>

fun update_first :: "('a \<Rightarrow> bool) \<Rightarrow> ('a \<Rightarrow> 'a) \<Rightarrow> 'a list \<Rightarrow> 'a list" where
  "update_first P f [] = []"
| "update_first P f (x # xs) = (if P x then f x # xs else x # update_first P f xs)"

definition processCommandResponse :: "nat \<Rightarrow> string \<Rightarrow> StatusReport \<Rightarrow> server \<Rightarrow> server" where
  "processCommandResponse now u resp s =
    (let commands = queue_of s u in
     case find (\<lambda>cmd. Some (cmd_id cmd) = CommandUUID resp) commands of
       Some command \<Rightarrow>
         s\<lparr>commandQueue := (commandQueue s)(u \<mapsto>
              update_first (\<lambda>cmd. Some (cmd_id cmd) = CommandUUID resp)
                (\<lambda>cmd. cmd\<lparr>status := Completed, completedAt := Some now, response := Some resp\<rparr>)
                commands)\<rparr>
     | None \<Rightarrow> s)"

text \<open>
  The step both branches of the handler end with: the next command, if there is one, is
  marked \<open>sent\<close> and sent as a command request; otherwise the empty reply goes out.
\<close>

definition sendNext :: "nat \<Rightarrow> string \<Rightarrow> server \<Rightarrow> server \<times> reply" where
  "sendNext now u s =
    (case getNextCommand s u of
       Some nextCommand \<Rightarrow>
         (s\<lparr>commandQueue := (commandQueue s)(u \<mapsto>
              update_first (\<lambda>cmd. status cmd = Pending)
                (\<lambda>cmd. cmd\<lparr>status := Sent, sentAt := Some now\<rparr>)
                (queue_of s u))\<rparr>,
          SendXml (buildCommandRequest nextCommand))
     | None \<Rightarrow> (s, SendXml (JObj [])))"

text \<open>\<open>app.put('/mdm')\<close> on the decoded status report.\<close>

definition mdm_put :: "nat \<Rightarrow> StatusReport \<Rightarrow> server \<Rightarrow> server \<times> reply" where
  "mdm_put now resp s =
    (case devices s (reportUDID resp) of
       None \<Rightarrow> (s, SendStatus 401)
     | Some device \<Rightarrow>
         (let s1 = s\<lparr>devices := (devices s)(reportUDID resp \<mapsto> device\<lparr>lastCheckIn := Some now\<rparr>)\<rparr>
          in if Status resp = ''Idle'' then sendNext now (reportUDID resp) s1
             else if Status resp = ''Acknowledged''
               then sendNext now (reportUDID resp) (processCommandResponse now (reportUDID resp) resp s1)
             else (s1, SendXml (JObj []))))"

section \<open>REST API\<close>

text \<open>\<open>cid\<close> is the value of \<open>uuidv4().toUpperCase()\<close> in this call.\<close>

definition new_command :: "string \<Rightarrow> nat \<Rightarrow> string \<Rightarrow> string \<Rightarrow> (string \<times> jsval) list option \<Rightarrow> MDMCommand" where
  "new_command cid now u kind p =
    \<lparr>cmd_id = cid, deviceId = u, commandType = kind, payload = p, status = Pending,
     createdAt = now, sentAt = None, completedAt = None, response = None, errorMessage = None\<rparr>"

definition push_command :: "string \<Rightarrow> MDMCommand \<Rightarrow> server \<Rightarrow> server" where
  "push_command u command s = s\<lparr>commandQueue := (commandQueue s)(u \<mapsto> queue_of s u @ [command])\<rparr>"

text \<open>\<open>app.post('/api/devices/:udid/commands')\<close>.\<close>

definition post_commands :: "string \<Rightarrow> nat \<Rightarrow> string \<Rightarrow> string \<Rightarrow> (string \<times> jsval) list option \<Rightarrow> server \<Rightarrow> server \<times> reply" where
  "post_commands cid now u kind p s =
    (case devices s u of
       None \<Rightarrow> (s, SendError 404 ''Device not found'')
     | Some device \<Rightarrow>
         (let command = new_command cid now u kind p
          in (push_command u command s, SendCommand command)))"

definition default_queries :: jsval where
  "default_queries = JArr (map JStr
     [''UDID'', ''DeviceName'', ''OSVersion'', ''BuildVersion'', ''ModelName'', ''Model'',
      ''ProductName'', ''SerialNumber'', ''DeviceCapacity'', ''AvailableDeviceCapacity'',
      ''BatteryLevel'', ''WiFiMAC'', ''BluetoothMAC'', ''IsSupervised''])"

text \<open>\<open>app.post('/api/devices/:udid/query')\<close>; \<open>queries\<close> is \<open>req.body.queries\<close>.\<close>

definition post_query :: "string \<Rightarrow> nat \<Rightarrow> string \<Rightarrow> jsval \<Rightarrow> server \<Rightarrow> server \<times> reply" where
  "post_query cid now u queries s =
    (let command = new_command cid now u ''DeviceInformation''
           (Some [(''Queries'', if js_truthy queries then queries else default_queries)])
     in (push_command u command s, SendCommand command))"

text \<open>\<open>app.post('/api/devices/:udid/lock')\<close>.\<close>

definition post_lock :: "string \<Rightarrow> nat \<Rightarrow> string \<Rightarrow> jsval \<Rightarrow> jsval \<Rightarrow> server \<Rightarrow> server \<times> reply" where
  "post_lock cid now u message phoneNumber s =
    (let command = new_command cid now u ''DeviceLock''
           (Some [(''Message'', message), (''PhoneNumber'', phoneNumber)])
     in (push_command u command s, SendCommand command))"

section \<open>Runs of the server\<close>

datatype event =
    CheckIn string nat CheckInMessage
  | MdmPut nat StatusReport
  | PostCommands string nat string string "(string \<times> jsval) list option"
  | PostQuery string nat string jsval
  | PostLock string nat string jsval jsval

fun step :: "event \<Rightarrow> server \<Rightarrow> server" where
  "step (CheckIn uuid now message) s = fst (checkin_put uuid now message s)"
| "step (MdmPut now resp) s = fst (mdm_put now resp s)"
| "step (PostCommands cid now u kind p) s = fst (post_commands cid now u kind p s)"
| "step (PostQuery cid now u queries) s = fst (post_query cid now u queries s)"
| "step (PostLock cid now u message phoneNumber) s = fst (post_lock cid now u message phoneNumber s)"

definition run :: "event list \<Rightarrow> server \<Rightarrow> server" where
  "run evs s = fold step evs s"

section \<open>Messages and runs used as examples\<close>

definition checkin_msg :: "string \<Rightarrow> string \<Rightarrow> string option \<Rightarrow> string option \<Rightarrow> CheckInMessage" where
  "checkin_msg kind u tok magic =
    \<lparr>MessageType = kind, Topic = ''com.apple.mgmt'', UDID = u, Token = tok, PushMagic = magic,
     OSVersion = JUndefined, BuildVersion = JUndefined, ProductName = JUndefined,
     SerialNumber = JUndefined, DeviceName = JUndefined, Model = JUndefined,
     ModelName = JUndefined\<rparr>"

definition status_report :: "string \<Rightarrow> string \<Rightarrow> string option \<Rightarrow> StatusReport" where
  "status_report st u cid = \<lparr>Status = st, reportUDID = u, CommandUUID = cid, otherKeys = []\<rparr>"

definition enroll_A1 :: "event list" where
  "enroll_A1 =
    [CheckIn ''id-1'' 1 (checkin_msg ''Authenticate'' ''A1'' None None),
     CheckIn ''id-2'' 2 (checkin_msg ''TokenUpdate'' ''A1'' (Some ''tok123'') (Some ''magic''))]"

definition two_queued :: "event list" where
  "two_queued = enroll_A1 @
    [PostCommands ''C-1'' 3 ''A1'' ''Cmd1'' None,
     PostCommands ''C-2'' 4 ''A1'' ''Cmd2'' None]"

definition idle_poll :: "nat \<Rightarrow> event" where
  "idle_poll now = MdmPut now (status_report ''Idle'' ''A1'' None)"

definition sent_A1 :: server where
  "sent_A1 = run (two_queued @ [idle_poll 5]) init"

definition mixed_run :: "event list" where
  "mixed_run = two_queued @
     [CheckIn ''id-3'' 5 (checkin_msg ''Authenticate'' ''B2'' None None),
      PostCommands ''C-3'' 6 ''B2'' ''Cmd3'' None,
      PostCommands ''C-4'' 7 ''B2'' ''Cmd4'' None,
      idle_poll 8,
      MdmPut 9 (status_report ''Idle'' ''B2'' None),
      MdmPut 10 (status_report ''Idle'' ''B2'' None),
      MdmPut 11 (status_report ''Acknowledged'' ''A1'' (Some ''C-1''))]"

section \<open>Predicates of the statements and proofs\<close>

text \<open>A record with push credentials has been enrolled.\<close>

definition push_inv :: "MDMDevice \<Rightarrow> bool" where
  "push_inv d = (if pushToken d = None \<and> pushMagic d = None then True
                 else enrollmentStatus d \<noteq> EnrollPending \<and> enrolledAt d \<noteq> None)"

definition registry_ok :: "server \<Rightarrow> bool" where
  "registry_ok s = (\<forall>u d. devices s u = Some d \<longrightarrow> push_inv d)"

text \<open>
  The discipline of the device \<open>u\<close> that answers before it polls again: it reports
  \<open>Idle\<close> only when none of its commands is \<open>sent\<close>, and its \<open>Acknowledged\<close> report
  names the command that is \<open>sent\<close>. The identifier of a new command for \<open>u\<close> is new
  in its queue (the server draws it with \<open>uuidv4\<close>). Nothing is asked of the other
  devices.
\<close>

definition sent_of :: "server \<Rightarrow> string \<Rightarrow> MDMCommand list" where
  "sent_of s u = filter (\<lambda>cmd. status cmd = Sent) (queue_of s u)"

fun answers_first_for :: "string \<Rightarrow> event \<Rightarrow> server \<Rightarrow> bool" where
  "answers_first_for u (MdmPut now r) s =
     (if reportUDID r \<noteq> u then True
      else if Status r = ''Idle'' then sent_of s u = []
      else if Status r = ''Acknowledged''
        then list_all (\<lambda>cmd. CommandUUID r = Some (cmd_id cmd)) (sent_of s u)
      else True)"
| "answers_first_for u (PostCommands cid now u' kind p) s =
     (if u' \<noteq> u then True else cid \<notin> set (map cmd_id (queue_of s u)))"
| "answers_first_for u (PostQuery cid now u' queries) s =
     (if u' \<noteq> u then True else cid \<notin> set (map cmd_id (queue_of s u)))"
| "answers_first_for u (PostLock cid now u' message phoneNumber) s =
     (if u' \<noteq> u then True else cid \<notin> set (map cmd_id (queue_of s u)))"
| "answers_first_for u (CheckIn uuid now message) s = True"

fun disciplined_for :: "string \<Rightarrow> event list \<Rightarrow> server \<Rightarrow> bool" where
  "disciplined_for u [] s = True"
| "disciplined_for u (e # es) s = (answers_first_for u e s \<and> disciplined_for u es (step e s))"

text \<open>No command has failed, is acknowledged or carries an error message.\<close>

definition no_failure :: "MDMCommand list \<Rightarrow> bool" where
  "no_failure cs = list_all (\<lambda>cmd. status cmd \<noteq> Failed \<and> status cmd \<noteq> Acknowledged \<and> errorMessage cmd = None) cs"

text \<open>The invariant behind single flight: distinct identifiers, at most one \<open>sent\<close>.\<close>

definition queue_ok :: "MDMCommand list \<Rightarrow> bool" where
  "queue_ok cs = (distinct (map cmd_id cs) \<and> length (filter (\<lambda>cmd. status cmd = Sent) cs) \<le> 1)"

text \<open>
  The messages the codec reproduces: an object whose keys are not empty, have no
  \<open><\<close> and are not \<open>__proto__\<close>, and whose values are booleans, integers in the safe range of doubles (up to
  \<open>2^53 - 1\<close> in size) and strings that have none of \<open>&\<close>, \<open><\<close>, \<open>>\<close> and are not the
  text of a number.
\<close>

fun scalar_leaf :: "jsval \<Rightarrow> bool" where
  "scalar_leaf (JBool b) = True"
| "scalar_leaf (JNum x) =
     (case x of Fin r \<Rightarrow> r = of_int \<lfloor>r\<rfloor> \<and> \<bar>r\<bar> \<le> 9007199254740991 | Infinite neg \<Rightarrow> False | NaN \<Rightarrow> False)"
| "scalar_leaf (JStr s) =
     (CHR ''&'' \<notin> set s \<and> CHR ''<'' \<notin> set s \<and> CHR ''>'' \<notin> set s \<and> js_Number s = NaN)"
| "scalar_leaf v = False"

definition plain_entry :: "string \<times> jsval \<Rightarrow> bool" where
  "plain_entry kv =
     (fst kv \<noteq> [] \<and> CHR ''<'' \<notin> set (fst kv) \<and> fst kv \<noteq> ''__proto__'' \<and> scalar_leaf (snd kv))"

text \<open>The text of one entry of a dictionary, as \<open>convertValue\<close> writes it.\<close>

definition entry_text :: "(jsnum \<Rightarrow> string) \<Rightarrow> string \<times> jsval \<Rightarrow> string" where
  "entry_text numText kv = ''<key>'' @ fst kv @ ''</key>'' @ convertValue numText (snd kv)"

text \<open>A search result, with the text \<open>a\<close> put before the text it skipped.\<close>

definition behind :: "string \<Rightarrow> (string \<times> string) option \<Rightarrow> (string \<times> string) option" where
  "behind a x = (case x of None \<Rightarrow> None | Some (b, t) \<Rightarrow> Some (a @ b, t))"

text \<open>What stands behind an entry of a dictionary: the next entry, or nothing.\<close>

definition entry_follows :: "string \<Rightarrow> bool" where
  "entry_follows rest = (rest = [] \<or> strip_prefix ''<key>'' rest \<noteq> None)"

text \<open>
  In the examples no number needs a text of JavaScript's own, so nothing is said
  about it.
\<close>

definition no_text :: "jsnum \<Rightarrow> string" where
  "no_text x = []"

text \<open>
  The text of an Authenticate handshake. The device's name is \<open>0\<close>, and version
  \<open>17.0\<close> and build \<open>7E18\<close> are texts that read as numbers.
\<close>

definition handshake_text :: string where
  "handshake_text = toPlist no_text
     [(''MessageType'', JStr ''Authenticate''), (''UDID'', JStr ''A1''),
      (''DeviceName'', JStr ''0''), (''OSVersion'', JStr ''17.0''),
      (''BuildVersion'', JStr ''7E18''), (''Model'', JStr ''iPhone14,2'')]"

text \<open>A field of the decoded message, read through the cast: \<open>message.k\<close>.\<close>

definition decoded_attribute :: "(string \<rightharpoonup> jsval) \<Rightarrow> string \<Rightarrow> jsval" where
  "decoded_attribute message k = (case message k of None \<Rightarrow> JUndefined | Some v \<Rightarrow> v)"

text \<open>The message \<open>handleAuthenticate\<close> gets for this text.\<close>

definition handshake_msg :: CheckInMessage where
  "handshake_msg = (checkin_msg ''Authenticate'' ''A1'' None None)
     \<lparr>OSVersion := decoded_attribute (parsePlist handshake_text) ''OSVersion'',
      BuildVersion := decoded_attribute (parsePlist handshake_text) ''BuildVersion'',
      ProductName := decoded_attribute (parsePlist handshake_text) ''ProductName'',
      SerialNumber := decoded_attribute (parsePlist handshake_text) ''SerialNumber'',
      DeviceName := decoded_attribute (parsePlist handshake_text) ''DeviceName'',
      Model := decoded_attribute (parsePlist handshake_text) ''Model'',
      ModelName := decoded_attribute (parsePlist handshake_text) ''ModelName''\<rparr>"

section \<open>Unfolding the definitions\<close>

text \<open>
  The payload of a command with the keys \<open>1\<close> and \<open>Message\<close>: in the request the
  array index stands before \<open>RequestType\<close>, the other key behind it.
\<close>

lemma spread_orders_array_indices:
  "obj_spread [(''RequestType'', JStr ''DeviceLock'')] [(''1'', JBool True), (''Message'', JStr ''Lost'')]
     = [(''1'', JBool True), (''RequestType'', JStr ''DeviceLock''), (''Message'', JStr ''Lost'')]"
  by (simp add: obj_spread_def obj_set_def array_index_def is_digit_def digits_val_def digit_val_def)

lemmas server_defs =
  run_def init_def checkin_put_def handleAuthenticate_def handleTokenUpdate_def
  handleCheckOut_def mdm_put_def sendNext_def getNextCommand_def processCommandResponse_def
  queue_of_def post_commands_def post_query_def post_lock_def push_command_def new_command_def
  buildCommandRequest_def obj_spread_def or_empty_def Let_def

lemmas example_defs = enroll_A1_def two_queued_def idle_poll_def checkin_msg_def status_report_def

lemma run_Nil: "run [] s = s" by (simp add: run_def)
lemma run_Cons: "run (e # es) s = run es (step e s)" by (simp add: run_def)
lemma run_snoc: "run (es @ [e]) s = step e (run es s)" by (simp add: run_def)

section \<open>Enrollment\<close>

lemma registry_ok_upd:
  "registry_ok s \<Longrightarrow> push_inv d \<Longrightarrow> registry_ok (s\<lparr>devices := (devices s)(u \<mapsto> d)\<rparr>)"
  by (simp add: registry_ok_def)

lemma registry_ok_queue [simp]: "registry_ok (s\<lparr>commandQueue := q\<rparr>) = registry_ok s"
  by (simp add: registry_ok_def)

lemma registry_okD: "registry_ok s \<Longrightarrow> devices s u = Some d \<Longrightarrow> push_inv d"
  by (simp add: registry_ok_def)

lemma push_inv_lastCheckIn [simp]: "push_inv (d\<lparr>lastCheckIn := t\<rparr>) = push_inv d"
  by (simp add: push_inv_def)

lemma push_inv_unenrolled: "push_inv d \<Longrightarrow> push_inv (d\<lparr>enrollmentStatus := Unenrolled\<rparr>)"
  by (simp add: push_inv_def split: if_splits)

lemma push_inv_enrolled:
  "push_inv (d\<lparr>pushToken := t, pushMagic := m, enrollmentStatus := Enrolled,
               enrolledAt := Some now, lastCheckIn := Some now\<rparr>)"
  by (simp add: push_inv_def)

lemma registry_ok_authenticate: "registry_ok s \<Longrightarrow> registry_ok (fst (handleAuthenticate uuid m s))"
  by (simp add: handleAuthenticate_def registry_ok_upd push_inv_def)

lemma registry_ok_tokenUpdate: "registry_ok s \<Longrightarrow> registry_ok (fst (handleTokenUpdate now m s))"
  by (auto simp: handleTokenUpdate_def split: option.split intro!: registry_ok_upd push_inv_enrolled)

lemma registry_ok_checkOut: "registry_ok s \<Longrightarrow> registry_ok (fst (handleCheckOut m s))"
  by (auto simp: handleCheckOut_def split: option.split
      intro!: registry_ok_upd push_inv_unenrolled dest: registry_okD)

lemma registry_ok_processCommandResponse:
  "registry_ok s \<Longrightarrow> registry_ok (processCommandResponse now u r s)"
  by (simp add: processCommandResponse_def Let_def split: option.split)

lemma registry_ok_sendNext: "registry_ok s \<Longrightarrow> registry_ok (fst (sendNext now u s))"
  by (simp add: sendNext_def split: option.split)

lemma registry_ok_mdm_put: "registry_ok s \<Longrightarrow> registry_ok (fst (mdm_put now r s))"
  by (auto simp: mdm_put_def Let_def split: option.split
      intro!: registry_ok_sendNext registry_ok_processCommandResponse registry_ok_upd
      dest: registry_okD)

lemma registry_ok_step: "registry_ok s \<Longrightarrow> registry_ok (step e s)"
  by (cases e)
    (simp_all add: checkin_put_def registry_ok_authenticate registry_ok_tokenUpdate
      registry_ok_checkOut registry_ok_mdm_put post_commands_def post_query_def post_lock_def
      push_command_def Let_def split: option.split)

lemma registry_ok_run: "registry_ok s \<Longrightarrow> registry_ok (run evs s)"
  by (induction evs arbitrary: s) (simp_all add: run_Nil run_Cons registry_ok_step)

lemma registry_ok_init: "registry_ok init"
  by (simp add: registry_ok_def init_def)

text \<open>
  Claim C10. In every state the server reaches from the empty one, a device record that
  carries a push token or a push-magic value has completed its enrollment: its state is
  not \<open>pending\<close> and its enrolled-at time is set. So a record that was only
  authenticated carries neither.
\<close>

theorem push_credentials_only_after_enrollment:
  assumes "devices (run evs init) u = Some d"
    and "pushToken d \<noteq> None \<or> pushMagic d \<noteq> None"
  shows "enrollmentStatus d \<noteq> EnrollPending \<and> enrolledAt d \<noteq> None"
proof -
  have "push_inv d"
    using registry_ok_run[OF registry_ok_init] assms(1) by (rule registry_okD)
  with assms(2) show ?thesis
    by (auto simp: push_inv_def split: if_splits)
qed

text \<open>Scenario 1 of the specification: Authenticate, then TokenUpdate, for device A1.\<close>

lemma enroll_A1_state:
  "map_option (\<lambda>d. (enrollmentStatus d, pushToken d, pushMagic d, enrolledAt d)) (devices (run enroll_A1 init) ''A1'')
     = Some (Enrolled, Some ''tok123'', Some ''magic'', Some 2)"
  by (simp add: enroll_A1_def run_def init_def checkin_put_def checkin_msg_def
      handleAuthenticate_def handleTokenUpdate_def)

theorem push_credentials_only_after_enrollment_witness:
  "\<exists>d. devices (run enroll_A1 init) ''A1'' = Some d \<and> pushToken d = Some ''tok123''
     \<and> enrollmentStatus d \<noteq> EnrollPending \<and> enrolledAt d \<noteq> None"
proof -
  obtain d where d: "devices (run enroll_A1 init) ''A1'' = Some d" and t: "pushToken d = Some ''tok123''"
    using enroll_A1_state by auto
  from t have "pushToken d \<noteq> None \<or> pushMagic d \<noteq> None" by simp
  from push_credentials_only_after_enrollment[OF d this] d t show ?thesis by blast
qed

text \<open>
  Claim C4, as the code has it. \<open>handleAuthenticate\<close> never looks the identifier up: it
  stores a new record under it, whether or not one was there. Each attribute is the
  decoded value of the message as it is (a text that reads as a number arrives as the
  number), or the empty string when that value is missing or falsy (empty, zero,
  \<open>false\<close>). The enrollment state is \<open>pending\<close>, and push token, push magic,
  enrolled-at and last-check-in are absent. The records of the other identifiers and
  the command queues stay as they were.
\<close>

theorem authenticate_replaces_record:
  "\<exists>d. devices (fst (handleAuthenticate uuid m s)) (UDID m) = Some d \<and>
      devices (fst (handleAuthenticate uuid m s)) |` (- {UDID m}) = devices s |` (- {UDID m}) \<and>
      commandQueue (fst (handleAuthenticate uuid m s)) = commandQueue s \<and>
      deviceName d = or_empty (DeviceName m) \<and> modelName d = or_empty (ModelName m) \<and>
      model d = or_empty (Model m) \<and> osVersion d = or_empty (OSVersion m) \<and>
      buildVersion d = or_empty (BuildVersion m) \<and> productName d = or_empty (ProductName m) \<and>
      serialNumber d = or_empty (SerialNumber m) \<and>
      enrollmentStatus d = EnrollPending \<and> pushToken d = None \<and> pushMagic d = None \<and>
      enrolledAt d = None \<and> lastCheckIn d = None"
  by (simp add: handleAuthenticate_def)

text \<open>
  Claim C4 as stated fails: device A1 is enrolled with push credentials, authenticates
  again, and its record is \<open>pending\<close> without credentials.
\<close>

theorem authenticate_resets_enrolled_device:
  "map_option (\<lambda>d. (enrollmentStatus d, pushToken d, pushMagic d)) (devices (run enroll_A1 init) ''A1'')
     = Some (Enrolled, Some ''tok123'', Some ''magic'') \<and>
   map_option (\<lambda>d. (enrollmentStatus d, pushToken d, pushMagic d))
     (devices (fst (handleAuthenticate ''id-3'' (checkin_msg ''Authenticate'' ''A1'' None None)
        (run enroll_A1 init))) ''A1'')
     = Some (EnrollPending, None, None)"
  by (simp add: server_defs example_defs)

text \<open>
  The handshake of the example, for the enrolled A1: the name \<open>0\<close> is stored as the
  empty string, version and build as numbers.
\<close>

lemma handshake_decoded:
  "map (decoded_attribute (parsePlist handshake_text))
     [''DeviceName'', ''OSVersion'', ''BuildVersion'', ''Model'', ''ModelName'', ''ProductName'', ''SerialNumber'']
   = [JNum (Fin 0), JNum (Fin 17), JNum (Fin (7 * 10 ^ 18)), JStr ''iPhone14,2'',
      JUndefined, JUndefined, JUndefined]"
  by code_simp

theorem authenticate_replaces_record_witness:
  "\<exists>d. devices (fst (handleAuthenticate ''id-3'' handshake_msg (run enroll_A1 init))) ''A1'' = Some d \<and>
      deviceName d = JStr [] \<and> osVersion d = JNum (Fin 17) \<and>
      buildVersion d = JNum (Fin (7 * 10 ^ 18)) \<and> model d = JStr ''iPhone14,2'' \<and>
      modelName d = JStr [] \<and>
      enrollmentStatus d = EnrollPending \<and> pushToken d = None \<and> pushMagic d = None"
  using authenticate_replaces_record[of "''id-3''" handshake_msg "run enroll_A1 init"] handshake_decoded
  by (auto simp: handshake_msg_def checkin_msg_def or_empty_def)

text \<open>
  Claim C5, as the code has it. A TokenUpdate for an identifier without a record is
  answered with the empty acknowledgment, so it is not rejected; but the guard
  \<open>if (device)\<close> skips the update, and the registry stays as it was: no record is made.
\<close>

theorem tokenUpdate_unknown_device:
  assumes "devices s (UDID m) = None"
  shows "handleTokenUpdate now m s = (s, SendXml (JObj []))"
  using assms by (simp add: handleTokenUpdate_def)

theorem tokenUpdate_unknown_device_witness:
  "devices init (UDID (checkin_msg ''TokenUpdate'' ''A1'' (Some ''tok123'') (Some ''magic''))) = None \<and>
   handleTokenUpdate 1 (checkin_msg ''TokenUpdate'' ''A1'' (Some ''tok123'') (Some ''magic'')) init
     = (init, SendXml (JObj []))"
proof -
  have h: "devices init (UDID (checkin_msg ''TokenUpdate'' ''A1'' (Some ''tok123'') (Some ''magic''))) = None"
    by (simp add: init_def)
  from tokenUpdate_unknown_device[OF h] h show ?thesis by simp
qed

text \<open>
  Claim C5 as stated fails: after a TokenUpdate for the unknown A1, sent through the
  check-in endpoint to the empty server, there is still no record of A1.
\<close>

theorem tokenUpdate_creates_no_record:
  "devices (fst (checkin_put ''id-1'' 1 (checkin_msg ''TokenUpdate'' ''A1'' (Some ''tok123'') (Some ''magic'')) init)) ''A1'' = None"
  by (simp add: server_defs example_defs)

section \<open>The command queue\<close>

lemma find_index_form:
  "find P xs = Some x \<Longrightarrow> \<exists>j<length xs. xs ! j = x \<and> P x \<and> (\<forall>i<j. \<not> P (xs ! i))"
  by (auto simp: find_Some_iff)

lemma update_first_nth:
  "i < length xs \<Longrightarrow> P (xs ! i) \<Longrightarrow> (\<forall>j<i. \<not> P (xs ! j)) \<Longrightarrow>
     update_first P f xs = xs[i := f (xs ! i)]"
proof (induction xs arbitrary: i)
  case Nil
  then show ?case by simp
next
  case (Cons x xs)
  show ?case
  proof (cases i)
    case 0
    with Cons.prems show ?thesis by simp
  next
    case (Suc k)
    with Cons.prems have "\<not> P x" by auto
    moreover have "update_first P f xs = xs[k := f (xs ! k)]"
      using Cons.prems Suc by (intro Cons.IH) auto
    ultimately show ?thesis using Suc by simp
  qed
qed

lemma update_first_none: "find P xs = None \<Longrightarrow> update_first P f xs = xs"
  by (induction xs) (auto split: if_splits)

lemma find_nth:
  "i < length xs \<Longrightarrow> P (xs ! i) \<Longrightarrow> (\<forall>j<i. \<not> P (xs ! j)) \<Longrightarrow> find P xs = Some (xs ! i)"
  by (auto simp: find_Some_iff)

lemma queue_of_processCommandResponse:
  "queue_of (processCommandResponse now u r s) u' =
     (if u' = u
      then update_first (\<lambda>cmd. Some (cmd_id cmd) = CommandUUID r)
             (\<lambda>cmd. cmd\<lparr>status := Completed, completedAt := Some now, response := Some r\<rparr>)
             (queue_of s u)
      else queue_of s u')"
  by (auto simp: processCommandResponse_def Let_def queue_of_def update_first_none
      split: option.splits)

lemma resolve_at:
  assumes "i < length (queue_of s u)"
    and "CommandUUID r = Some (cmd_id (queue_of s u ! i))"
    and "\<forall>j<i. cmd_id (queue_of s u ! j) \<noteq> cmd_id (queue_of s u ! i)"
  shows "queue_of (processCommandResponse now u r s) u =
    (queue_of s u)[i := (queue_of s u ! i)\<lparr>status := Completed, completedAt := Some now, response := Some r\<rparr>]"
proof -
  let ?P = "\<lambda>cmd. Some (cmd_id cmd) = CommandUUID r"
  have "?P (queue_of s u ! i)" using assms(2) by simp
  moreover have "\<forall>j<i. \<not> ?P (queue_of s u ! j)" using assms(2,3) by auto
  ultimately show ?thesis
    using assms(1) by (simp add: queue_of_processCommandResponse update_first_nth)
qed

lemma sent_A1_queue:
  "queue_of sent_A1 ''A1'' =
     [(new_command ''C-1'' 3 ''A1'' ''Cmd1'' None)\<lparr>status := Sent, sentAt := Some 5\<rparr>,
      new_command ''C-2'' 4 ''A1'' ''Cmd2'' None]"
  by (simp add: sent_A1_def server_defs example_defs)

text \<open>
  Claim C1, as the code has it. \<open>getNextCommand\<close> returns exactly the oldest
  \<open>pending\<close> command of the queue. What it returns is \<open>pending\<close>, so a \<open>sent\<close>
  command is never returned again, and no command before it in the queue is \<open>pending\<close>:
  of two commands the later one is not returned while the earlier one is \<open>pending\<close>.
  Conversely the first \<open>pending\<close> command is returned whatever the commands before
  it are, so a command that is \<open>sent\<close> blocks nothing; nothing is returned only when
  no command of the queue is \<open>pending\<close>. The order of the queue is the order of
  enqueueing: a new command goes to the end.
\<close>

theorem getNextCommand_oldest_pending:
  "(getNextCommand s u = Some c \<longrightarrow>
      status c = Pending \<and>
      (\<exists>j<length (queue_of s u). queue_of s u ! j = c \<and>
         (\<forall>i<j. status (queue_of s u ! i) \<noteq> Pending))) \<and>
   (j < length (queue_of s u) \<and> status (queue_of s u ! j) = Pending \<and>
    (\<forall>i<j. status (queue_of s u ! i) \<noteq> Pending)
      \<longrightarrow> getNextCommand s u = Some (queue_of s u ! j)) \<and>
   (getNextCommand s u = None \<longleftrightarrow> Pending \<notin> set (map status (queue_of s u))) \<and>
   queue_of (push_command u c' s) u = queue_of s u @ [c']"
proof (intro conjI impI)
  assume "getNextCommand s u = Some c"
  from find_index_form[OF this[unfolded getNextCommand_def]]
  show "status c = Pending"
    and "\<exists>j<length (queue_of s u). queue_of s u ! j = c \<and>
         (\<forall>i<j. status (queue_of s u ! i) \<noteq> Pending)"
    by auto
next
  assume "j < length (queue_of s u) \<and> status (queue_of s u ! j) = Pending \<and>
    (\<forall>i<j. status (queue_of s u ! i) \<noteq> Pending)"
  then show "getNextCommand s u = Some (queue_of s u ! j)"
    unfolding getNextCommand_def by (intro find_nth) auto
next
  show "getNextCommand s u = None \<longleftrightarrow> Pending \<notin> set (map status (queue_of s u))"
    by (force simp: getNextCommand_def find_None_iff)
next
  show "queue_of (push_command u c' s) u = queue_of s u @ [c']"
    by (simp add: push_command_def queue_of_def)
qed

theorem getNextCommand_oldest_pending_witness:
  "map status (queue_of sent_A1 ''A1'') = [Sent, Pending] \<and>
   getNextCommand sent_A1 ''A1'' = Some (queue_of sent_A1 ''A1'' ! 1) \<and>
   getNextCommand (run two_queued init) ''A1'' = Some (queue_of (run two_queued init) ''A1'' ! 0) \<and>
   getNextCommand (run enroll_A1 init) ''A1'' = None"
proof -
  have q: "map status (queue_of sent_A1 ''A1'') = [Sent, Pending]"
    by (simp add: sent_A1_queue new_command_def)
  have a: "1 < length (queue_of sent_A1 ''A1'') \<and> status (queue_of sent_A1 ''A1'' ! 1) = Pending \<and>
    (\<forall>i<1. status (queue_of sent_A1 ''A1'' ! i) \<noteq> Pending)"
    by (simp add: sent_A1_queue new_command_def)
  have q2: "queue_of (run two_queued init) ''A1'' =
     [new_command ''C-1'' 3 ''A1'' ''Cmd1'' None, new_command ''C-2'' 4 ''A1'' ''Cmd2'' None]"
    by (simp add: server_defs example_defs)
  have b: "0 < length (queue_of (run two_queued init) ''A1'') \<and>
    status (queue_of (run two_queued init) ''A1'' ! 0) = Pending \<and>
    (\<forall>i<0. status (queue_of (run two_queued init) ''A1'' ! i) \<noteq> Pending)"
    by (simp add: q2 new_command_def)
  have c: "Pending \<notin> set (map status (queue_of (run enroll_A1 init) ''A1''))"
    by (simp add: server_defs example_defs)
  show ?thesis
    using getNextCommand_oldest_pending[of sent_A1 "''A1''" "queue_of sent_A1 ''A1'' ! 1" 1]
      getNextCommand_oldest_pending[of "run two_queued init" "''A1''" "queue_of (run two_queued init) ''A1'' ! 0" 0]
      getNextCommand_oldest_pending[of "run enroll_A1 init" "''A1''" "new_command ''C-1'' 3 ''A1'' ''Cmd1'' None" 0]
      q a b c
    by blast
qed

text \<open>
  Claim C1 as stated fails: Cmd1 and Cmd2 are queued for A1 and one Idle poll has
  sent Cmd1. While Cmd1 is still \<open>sent\<close>, the selection returns Cmd2.
\<close>

theorem getNextCommand_skips_sent:
  "map status (queue_of (run (two_queued @ [idle_poll 5]) init) ''A1'') = [Sent, Pending] \<and>
   map_option cmd_id (getNextCommand (run (two_queued @ [idle_poll 5]) init) ''A1'') = Some ''C-2''"
  by (simp add: server_defs example_defs)

text \<open>
  Claim C6, as the code has it. Resolving a \<open>sent\<close> command, the first of its queue
  with the identifier the report names, sets it to \<open>completed\<close>, stamps completed-at and
  stores the report as its response. Nothing else of the queue changes; there is no success flag,
  no state \<open>failed\<close> and no error message.
\<close>

theorem resolve_sent_command:
  assumes "i < length (queue_of s u)"
    and "status (queue_of s u ! i) = Sent"
    and "CommandUUID r = Some (cmd_id (queue_of s u ! i))"
    and "\<forall>j<i. cmd_id (queue_of s u ! j) \<noteq> cmd_id (queue_of s u ! i)"
  shows "queue_of (processCommandResponse now u r s) u =
    (queue_of s u)[i := (queue_of s u ! i)\<lparr>status := Completed, completedAt := Some now, response := Some r\<rparr>]"
  using assms(1,3,4) by (rule resolve_at)

theorem resolve_sent_command_witness:
  "status (queue_of sent_A1 ''A1'' ! 0) = Sent \<and>
   map (\<lambda>c. (cmd_id c, status c, completedAt c, map_option Status (response c)))
     (queue_of (processCommandResponse 6 ''A1'' (status_report ''Acknowledged'' ''A1'' (Some ''C-1'')) sent_A1) ''A1'')
   = [(''C-1'', Completed, Some 6, Some ''Acknowledged''), (''C-2'', Pending, None, None)]"
proof -
  let ?r = "status_report ''Acknowledged'' ''A1'' (Some ''C-1'')"
  have 1: "0 < length (queue_of sent_A1 ''A1'')" by (simp add: sent_A1_queue)
  have 2: "status (queue_of sent_A1 ''A1'' ! 0) = Sent" by (simp add: sent_A1_queue)
  have 3: "CommandUUID ?r = Some (cmd_id (queue_of sent_A1 ''A1'' ! 0))"
    by (simp add: sent_A1_queue status_report_def new_command_def)
  have 4: "\<forall>j<0. cmd_id (queue_of sent_A1 ''A1'' ! j) \<noteq> cmd_id (queue_of sent_A1 ''A1'' ! 0)" by simp
  show ?thesis
    using resolve_sent_command[OF 1 2 3 4, of 6] 2
    by (simp add: sent_A1_queue status_report_def new_command_def)
qed

text \<open>
  Claim C6 as stated fails: \<open>processCommandResponse\<close> on a report with the status tag
  \<open>Error\<close> sets the command to \<open>completed\<close>, not \<open>failed\<close>, and stores no error
  message; and the handler does not resolve on that tag at all, the command stays \<open>sent\<close>.
\<close>

theorem resolve_never_fails_a_command:
  "map status (queue_of (processCommandResponse 6 ''A1'' (status_report ''Error'' ''A1'' (Some ''C-1'')) sent_A1) ''A1'')
     = [Completed, Pending] \<and>
   map errorMessage (queue_of (processCommandResponse 6 ''A1'' (status_report ''Error'' ''A1'' (Some ''C-1'')) sent_A1) ''A1'')
     = [None, None] \<and>
   map status (queue_of (fst (mdm_put 6 (status_report ''Error'' ''A1'' (Some ''C-1'')) sent_A1)) ''A1'')
     = [Sent, Pending]"
  by (simp add: sent_A1_def server_defs example_defs)

text \<open>
  Claim C7, as the code has it. No resolve raises an error. It is a no-op when no
  command of the device's queue has the identifier the report names. A command
  that has it and is not \<open>sent\<close> (the first one in the queue, if there are several) is
  set to \<open>completed\<close> all the same, with completed-at stamped and the response stored.
\<close>

theorem resolve_any_state:
  "(find (\<lambda>cmd. Some (cmd_id cmd) = CommandUUID r) (queue_of s u) = None
      \<longrightarrow> processCommandResponse now u r s = s) \<and>
   (i < length (queue_of s u) \<and> status (queue_of s u ! i) \<noteq> Sent \<and>
    CommandUUID r = Some (cmd_id (queue_of s u ! i)) \<and>
    (\<forall>j<i. cmd_id (queue_of s u ! j) \<noteq> cmd_id (queue_of s u ! i))
      \<longrightarrow> queue_of (processCommandResponse now u r s) u =
          (queue_of s u)[i := (queue_of s u ! i)\<lparr>status := Completed, completedAt := Some now, response := Some r\<rparr>])"
  using resolve_at[of i s u r now] by (auto simp: processCommandResponse_def Let_def)

theorem resolve_any_state_witness:
  "processCommandResponse 5 ''A1'' (status_report ''Acknowledged'' ''A1'' (Some ''C-7'')) (run two_queued init)
     = run two_queued init \<and>
   map (\<lambda>c. (status c, completedAt c))
     (queue_of (processCommandResponse 5 ''A1'' (status_report ''Acknowledged'' ''A1'' (Some ''C-2''))
        (run two_queued init)) ''A1'')
     = [(Pending, None), (Completed, Some 5)]"
proof -
  have q: "queue_of (run two_queued init) ''A1'' =
     [new_command ''C-1'' 3 ''A1'' ''Cmd1'' None, new_command ''C-2'' 4 ''A1'' ''Cmd2'' None]"
    by (simp add: server_defs example_defs)
  show ?thesis
    using resolve_any_state[of "status_report ''Acknowledged'' ''A1'' (Some ''C-7'')" "run two_queued init" "''A1''" 5 0]
      resolve_any_state[of "status_report ''Acknowledged'' ''A1'' (Some ''C-2'')" "run two_queued init" "''A1''" 5 1]
    by (simp add: q status_report_def new_command_def less_Suc_eq)
qed

text \<open>
  Claim C7 as stated fails: Cmd2 is \<open>pending\<close>, never sent; a report that names it
  makes it \<open>completed\<close> and stamps it.
\<close>

theorem resolve_completes_pending_command:
  "map (\<lambda>c. (status c, completedAt c)) (queue_of (run two_queued init) ''A1'') = [(Pending, None), (Pending, None)] \<and>
   map (\<lambda>c. (status c, completedAt c, map_option Status (response c)))
     (queue_of (processCommandResponse 5 ''A1'' (status_report ''Acknowledged'' ''A1'' (Some ''C-2''))
        (run two_queued init)) ''A1'')
     = [(Pending, None, None), (Completed, Some 5, Some ''Acknowledged'')]"
  by (simp add: server_defs example_defs)

text \<open>
  Claim C8 at the failing input: no device \<open>ghost\<close> is registered. The lock and the
  query entry points queue a \<open>pending\<close> command for it and answer with the command;
  only \<open>/commands\<close> answers 404 and leaves the queues alone.
\<close>

theorem lock_unknown_device_enqueues:
  "devices init ''ghost'' = None \<and>
   map (\<lambda>c. (cmd_id c, commandType c, status c))
     (queue_of (fst (post_lock ''C-9'' 7 ''ghost'' (JStr ''Lost'') JUndefined init)) ''ghost'')
     = [(''C-9'', ''DeviceLock'', Pending)] \<and>
   snd (post_lock ''C-9'' 7 ''ghost'' (JStr ''Lost'') JUndefined init)
     = SendCommand (new_command ''C-9'' 7 ''ghost'' ''DeviceLock''
         (Some [(''Message'', JStr ''Lost''), (''PhoneNumber'', JUndefined)])) \<and>
   map (\<lambda>c. (cmd_id c, commandType c, status c))
     (queue_of (fst (post_query ''C-9'' 7 ''ghost'' JUndefined init)) ''ghost'')
     = [(''C-9'', ''DeviceInformation'', Pending)] \<and>
   post_commands ''C-9'' 7 ''ghost'' ''DeviceLock'' None init = (init, SendError 404 ''Device not found'')"
  by (simp add: server_defs)

section \<open>The command channel\<close>

text \<open>
  Claim C9, as the code has it. A status report of a known device whose tag is
  neither \<open>Idle\<close> nor \<open>Acknowledged\<close> (\<open>Error\<close>, \<open>NotNow\<close>, ...) only stamps
  last-check-in and is answered with the empty acknowledgment: no command is resolved,
  none is delivered, the queues stay as they were.
\<close>

theorem other_status_only_touches_device:
  assumes "devices s (reportUDID r) = Some d"
    and "Status r \<noteq> ''Idle''" and "Status r \<noteq> ''Acknowledged''"
  shows "mdm_put now r s =
    (s\<lparr>devices := (devices s)(reportUDID r \<mapsto> d\<lparr>lastCheckIn := Some now\<rparr>)\<rparr>, SendXml (JObj []))"
  using assms by (simp add: mdm_put_def)

theorem other_status_only_touches_device_witness:
  "\<exists>d. devices (run (two_queued @ [idle_poll 5]) init) ''A1'' = Some d \<and>
     mdm_put 6 (status_report ''NotNow'' ''A1'' (Some ''C-1'')) (run (two_queued @ [idle_poll 5]) init) =
     ((run (two_queued @ [idle_poll 5]) init)\<lparr>devices :=
        (devices (run (two_queued @ [idle_poll 5]) init))(''A1'' \<mapsto> d\<lparr>lastCheckIn := Some 6\<rparr>)\<rparr>,
      SendXml (JObj []))"
proof -
  let ?r = "status_report ''NotNow'' ''A1'' (Some ''C-1'')"
  obtain d where d: "devices (run (two_queued @ [idle_poll 5]) init) (reportUDID ?r) = Some d"
    by (simp add: server_defs example_defs)
  have a: "Status ?r \<noteq> ''Idle''" and b: "Status ?r \<noteq> ''Acknowledged''"
    by (simp_all add: status_report_def)
  from other_status_only_touches_device[OF d a b, of 6] d show ?thesis
    by (auto simp: status_report_def)
qed

text \<open>
  Claim C9 as stated fails: Cmd1 is \<open>sent\<close> and Cmd2 \<open>pending\<close>. An \<open>Error\<close> report
  that names Cmd1 leaves both as they are and gets the empty reply, where an
  \<open>Acknowledged\<close> report completes Cmd1 and delivers Cmd2.
\<close>

theorem error_report_not_like_acknowledged:
  "map status (queue_of (run (two_queued @ [idle_poll 5]) init) ''A1'') = [Sent, Pending] \<and>
   map status (queue_of (fst (mdm_put 6 (status_report ''Error'' ''A1'' (Some ''C-1''))
      (run (two_queued @ [idle_poll 5]) init))) ''A1'') = [Sent, Pending] \<and>
   snd (mdm_put 6 (status_report ''Error'' ''A1'' (Some ''C-1''))
      (run (two_queued @ [idle_poll 5]) init)) = SendXml (JObj []) \<and>
   map status (queue_of (fst (mdm_put 6 (status_report ''Acknowledged'' ''A1'' (Some ''C-1''))
      (run (two_queued @ [idle_poll 5]) init))) ''A1'') = [Completed, Sent] \<and>
   snd (mdm_put 6 (status_report ''Acknowledged'' ''A1'' (Some ''C-1''))
      (run (two_queued @ [idle_poll 5]) init))
     = SendXml (JObj [(''CommandUUID'', JStr ''C-2''), (''Command'', JObj [(''RequestType'', JStr ''Cmd2'')])])"
  by (simp add: server_defs example_defs)

section \<open>Single flight\<close>

lemma queue_of_devices [simp]: "queue_of (s\<lparr>devices := d\<rparr>) u = queue_of s u"
  by (simp add: queue_of_def)

lemma queue_of_upd [simp]:
  "queue_of (s\<lparr>commandQueue := (commandQueue s)(u \<mapsto> cs)\<rparr>) u' = (if u' = u then cs else queue_of s u')"
  by (simp add: queue_of_def)

lemma queue_of_checkin_put [simp]: "queue_of (fst (checkin_put uuid now m s)) u = queue_of s u"
  by (simp add: checkin_put_def handleAuthenticate_def handleTokenUpdate_def handleCheckOut_def
      split: option.split)

lemma queue_of_push_command:
  "queue_of (push_command u c s) u' = (if u' = u then queue_of s u @ [c] else queue_of s u')"
  by (simp add: push_command_def)

lemma queue_of_sendNext:
  "queue_of (fst (sendNext now u s)) u' =
     (if u' = u
      then update_first (\<lambda>cmd. status cmd = Pending) (\<lambda>cmd. cmd\<lparr>status := Sent, sentAt := Some now\<rparr>)
             (queue_of s u)
      else queue_of s u')"
  by (auto simp: sendNext_def getNextCommand_def update_first_none split: option.split)

lemma map_cmd_id_update_first:
  "(\<And>x. cmd_id (f x) = cmd_id x) \<Longrightarrow> map cmd_id (update_first P f xs) = map cmd_id xs"
  by (induction xs) auto

lemma sent_after_mark:
  "length (filter (\<lambda>cmd. status cmd = Sent)
     (update_first (\<lambda>cmd. status cmd = Pending) (\<lambda>cmd. cmd\<lparr>status := Sent, sentAt := t\<rparr>) xs))
   \<le> Suc (length (filter (\<lambda>cmd. status cmd = Sent) xs))"
  by (induction xs) auto

lemma sent_after_resolve:
  assumes "distinct (map cmd_id xs)"
    and "\<forall>c\<in>set xs. status c = Sent \<longrightarrow> rid = Some (cmd_id c)"
  shows "filter (\<lambda>cmd. status cmd = Sent)
     (update_first (\<lambda>cmd. Some (cmd_id cmd) = rid)
        (\<lambda>cmd. cmd\<lparr>status := Completed, completedAt := t, response := r\<rparr>) xs) = []"
  using assms
proof (induction xs)
  case Nil
  then show ?case by simp
next
  case (Cons x xs)
  show ?case
  proof (cases "Some (cmd_id x) = rid")
    case True
    have "\<forall>c\<in>set xs. status c \<noteq> Sent"
    proof
      fix c assume c: "c \<in> set xs"
      show "status c \<noteq> Sent"
      proof
        assume "status c = Sent"
        with Cons.prems(2) c True have "cmd_id c = cmd_id x" by auto
        with Cons.prems(1) c show False by (auto simp: image_iff)
      qed
    qed
    then have "filter (\<lambda>cmd. status cmd = Sent) xs = []"
      by (simp add: filter_empty_conv)
    with True show ?thesis by simp
  next
    case False
    with Cons.prems(2) have "status x \<noteq> Sent" by auto
    moreover have "filter (\<lambda>cmd. status cmd = Sent)
       (update_first (\<lambda>cmd. Some (cmd_id cmd) = rid)
          (\<lambda>cmd. cmd\<lparr>status := Completed, completedAt := t, response := r\<rparr>) xs) = []"
      using Cons.prems by (intro Cons.IH) auto
    ultimately show ?thesis using False by simp
  qed
qed

lemma queue_ok_append:
  "queue_ok cs \<Longrightarrow> cmd_id c \<notin> set (map cmd_id cs) \<Longrightarrow> status c = Pending \<Longrightarrow> queue_ok (cs @ [c])"
  by (simp add: queue_ok_def)

lemma queue_ok_mark:
  assumes "distinct (map cmd_id cs)" and "filter (\<lambda>cmd. status cmd = Sent) cs = []"
  shows "queue_ok (update_first (\<lambda>cmd. status cmd = Pending) (\<lambda>cmd. cmd\<lparr>status := Sent, sentAt := t\<rparr>) cs)"
proof -
  have "length (filter (\<lambda>cmd. status cmd = Sent)
     (update_first (\<lambda>cmd. status cmd = Pending) (\<lambda>cmd. cmd\<lparr>status := Sent, sentAt := t\<rparr>) cs)) \<le> 1"
    using sent_after_mark[of t cs] assms(2) by simp
  then show ?thesis
    using assms(1) by (simp add: queue_ok_def map_cmd_id_update_first)
qed

lemma sent_of_devices [simp]: "sent_of (s\<lparr>devices := d\<rparr>) u = sent_of s u"
  by (simp add: sent_of_def)

lemma queue_ok_sendNext:
  assumes "queue_ok (queue_of s u)" and "sent_of s u = []"
  shows "queue_ok (queue_of (fst (sendNext now u s)) u)"
proof -
  have "distinct (map cmd_id (queue_of s u))"
    using assms(1) by (simp add: queue_ok_def)
  moreover have "filter (\<lambda>cmd. status cmd = Sent) (queue_of s u) = []"
    using assms(2) by (simp add: sent_of_def)
  ultimately show ?thesis
    by (simp add: queue_of_sendNext queue_ok_mark)
qed

lemma queue_ok_resolve:
  assumes "queue_ok (queue_of s u)"
    and "list_all (\<lambda>cmd. CommandUUID r = Some (cmd_id cmd)) (sent_of s u)"
  shows "queue_ok (queue_of (processCommandResponse now u r s) u) \<and>
         sent_of (processCommandResponse now u r s) u = []"
proof -
  let ?q = "update_first (\<lambda>cmd. Some (cmd_id cmd) = CommandUUID r)
             (\<lambda>cmd. cmd\<lparr>status := Completed, completedAt := Some now, response := Some r\<rparr>)
             (queue_of s u)"
  have d: "distinct (map cmd_id (queue_of s u))"
    using assms(1) by (simp add: queue_ok_def)
  have a: "\<forall>c\<in>set (queue_of s u). status c = Sent \<longrightarrow> CommandUUID r = Some (cmd_id c)"
    using assms(2) by (auto simp: sent_of_def list_all_iff)
  have e: "filter (\<lambda>cmd. status cmd = Sent) ?q = []"
    using sent_after_resolve[OF d a] .
  have "queue_ok ?q"
    using d e by (simp add: queue_ok_def map_cmd_id_update_first)
  then show ?thesis
    using e by (simp add: queue_of_processCommandResponse sent_of_def)
qed

lemma queue_of_mdm_put_other:
  "reportUDID r \<noteq> u \<Longrightarrow> queue_of (fst (mdm_put now r s)) u = queue_of s u"
  by (simp add: mdm_put_def Let_def queue_of_sendNext queue_of_processCommandResponse split: option.split)

lemma queue_ok_mdm_put:
  assumes "queue_ok (queue_of s u)" and "answers_first_for u (MdmPut now r) s"
  shows "queue_ok (queue_of (fst (mdm_put now r s)) u)"
proof (cases "reportUDID r = u")
  case False
  then show ?thesis using assms(1) by (simp add: queue_of_mdm_put_other)
next
  case same: True
  show ?thesis
  proof (cases "devices s u")
    case None
    then show ?thesis using assms(1) same by (simp add: mdm_put_def)
  next
    case (Some d)
    let ?s1 = "s\<lparr>devices := (devices s)(u \<mapsto> d\<lparr>lastCheckIn := Some now\<rparr>)\<rparr>"
    have ok1: "queue_ok (queue_of ?s1 u)" using assms(1) by simp
    consider (idle) "Status r = ''Idle''" | (ack) "Status r = ''Acknowledged''"
      | (other) "Status r \<noteq> ''Idle''" "Status r \<noteq> ''Acknowledged''" by blast
    then show ?thesis
    proof cases
      case idle
      with assms(2) same have "sent_of ?s1 u = []" by simp
      from queue_ok_sendNext[OF ok1 this] idle Some same show ?thesis by (simp add: mdm_put_def)
    next
      case ack
      with assms(2) same
      have "list_all (\<lambda>cmd. CommandUUID r = Some (cmd_id cmd)) (sent_of ?s1 u)" by simp
      from queue_ok_resolve[OF ok1 this, of now]
      have "queue_ok (queue_of (fst (sendNext now u (processCommandResponse now u r ?s1))) u)"
        by (intro queue_ok_sendNext) auto
      with ack Some same show ?thesis by (simp add: mdm_put_def)
    next
      case other
      with Some ok1 same show ?thesis by (simp add: mdm_put_def)
    qed
  qed
qed

lemma queue_ok_push:
  assumes "queue_ok (queue_of s u)"
    and "u' = u \<Longrightarrow> cmd_id c \<notin> set (map cmd_id (queue_of s u))" and "status c = Pending"
  shows "queue_ok (queue_of (push_command u' c s) u)"
  using assms by (auto simp: queue_of_push_command intro: queue_ok_append)

lemma queue_ok_step:
  assumes "queue_ok (queue_of s u)" and "answers_first_for u e s"
  shows "queue_ok (queue_of (step e s) u)"
proof (cases e)
  case (CheckIn uuid now m)
  then show ?thesis using assms(1) by simp
next
  case (MdmPut now r)
  then show ?thesis using assms queue_ok_mdm_put by simp
next
  case (PostCommands cid now u' kind p)
  then show ?thesis using assms
    by (auto simp: post_commands_def Let_def new_command_def split: option.split if_splits
        intro!: queue_ok_push)
next
  case (PostQuery cid now u' q)
  then show ?thesis using assms
    by (auto simp: post_query_def Let_def new_command_def split: if_splits intro!: queue_ok_push)
next
  case (PostLock cid now u' m p)
  then show ?thesis using assms
    by (auto simp: post_lock_def Let_def new_command_def split: if_splits intro!: queue_ok_push)
qed

lemma queue_ok_run:
  "queue_ok (queue_of s u) \<Longrightarrow> disciplined_for u evs s \<Longrightarrow> queue_ok (queue_of (run evs s) u)"
  by (induction evs arbitrary: s) (simp_all add: run_Nil run_Cons queue_ok_step)

lemma queue_ok_init: "queue_ok (queue_of init u)"
  by (simp add: queue_ok_def queue_of_def init_def)

text \<open>
  Claim C2, as the code has it. The server does not enforce single flight; it holds for
  a device that keeps the discipline \<open>disciplined_for\<close>, whatever the other devices do:
  in every state of a run from the empty server in which the device answers the
  command it was sent before it polls again, at most one of its commands is \<open>sent\<close>.
\<close>

theorem single_flight_when_answered_first:
  assumes "disciplined_for u evs init"
  shows "length (sent_of (run evs init) u) \<le> 1"
  using queue_ok_run[OF queue_ok_init assms]
  by (simp add: queue_ok_def sent_of_def)

lemma mixed_run_disciplined: "disciplined_for ''A1'' mixed_run init"
  by (simp add: mixed_run_def sent_of_def server_defs example_defs)

theorem single_flight_when_answered_first_witness:
  "disciplined_for ''A1'' mixed_run init \<and>
   length (sent_of (run mixed_run init) ''A1'') \<le> 1 \<and>
   map status (queue_of (run mixed_run init) ''A1'') = [Completed, Sent] \<and>
   map status (queue_of (run mixed_run init) ''B2'') = [Sent, Sent]"
proof -
  have "map status (queue_of (run mixed_run init) ''A1'') = [Completed, Sent]"
    and "map status (queue_of (run mixed_run init) ''B2'') = [Sent, Sent]"
    by (simp_all add: mixed_run_def server_defs example_defs)
  with single_flight_when_answered_first[OF mixed_run_disciplined] mixed_run_disciplined
  show ?thesis by simp
qed

text \<open>
  Claim C2 as stated fails: two Idle polls in a row, with no answer between them,
  leave both commands of A1 \<open>sent\<close>.
\<close>

theorem two_idle_polls_two_sent:
  "map (\<lambda>c. (cmd_id c, status c)) (queue_of (run (two_queued @ [idle_poll 5, idle_poll 6]) init) ''A1'')
     = [(''C-1'', Sent), (''C-2'', Sent)] \<and>
   length (sent_of (run (two_queued @ [idle_poll 5, idle_poll 6]) init) ''A1'') = 2"
  by (simp add: sent_of_def server_defs example_defs)

section \<open>Order and states of the queue\<close>

lemma list_all_update_first:
  "list_all P xs \<Longrightarrow> (\<And>x. P x \<Longrightarrow> P (f x)) \<Longrightarrow> list_all P (update_first Q f xs)"
  by (induction xs) auto

lemma length_update_first [simp]: "length (update_first P f xs) = length xs"
  by (induction xs) auto

lemma no_failure_step:
  assumes "no_failure (queue_of s u)"
  shows "no_failure (queue_of (step e s) u)"
proof (cases e)
  case (CheckIn uuid now m)
  then show ?thesis using assms by simp
next
  case (MdmPut now r)
  have a: "no_failure (queue_of (processCommandResponse now' u' r s') u)"
    if "no_failure (queue_of s' u)" for now' u' s'
    using that
    by (auto simp: queue_of_processCommandResponse no_failure_def intro!: list_all_update_first)
  have b: "no_failure (queue_of (fst (sendNext now' u' s')) u)"
    if "no_failure (queue_of s' u)" for now' u' s'
    using that
    by (auto simp: queue_of_sendNext no_failure_def intro!: list_all_update_first)
  show ?thesis
    using MdmPut assms by (auto simp: mdm_put_def Let_def split: option.split intro!: a b)
next
  case (PostCommands cid now u' kind p)
  then show ?thesis using assms
    by (auto simp: post_commands_def Let_def new_command_def queue_of_push_command no_failure_def
        split: option.split)
next
  case (PostQuery cid now u' q)
  then show ?thesis using assms
    by (auto simp: post_query_def Let_def new_command_def queue_of_push_command no_failure_def)
next
  case (PostLock cid now u' m p)
  then show ?thesis using assms
    by (auto simp: post_lock_def Let_def new_command_def queue_of_push_command no_failure_def)
qed

text \<open>
  In every state the server reaches, no command is \<open>failed\<close> or \<open>acknowledged\<close> and
  none carries an error message: nothing in the server writes them.
\<close>

lemma no_command_ever_failed:
  "list_all (\<lambda>cmd. status cmd \<noteq> Failed \<and> status cmd \<noteq> Acknowledged \<and> errorMessage cmd = None)
     (queue_of (run evs init) u)"
proof -
  have "no_failure (queue_of s u) \<Longrightarrow> no_failure (queue_of (run evs s) u)" for s
    by (induction evs arbitrary: s) (simp_all add: run_Nil run_Cons no_failure_step)
  moreover have "no_failure (queue_of init u)"
    by (simp add: no_failure_def queue_of_def init_def)
  ultimately show ?thesis by (simp add: no_failure_def)
qed

text \<open>
  No step reorders or removes the commands of a queue: new ones are added at its end.
\<close>

lemma step_keeps_queue_order:
  "\<exists>new. map cmd_id (queue_of (step e s) u) = map cmd_id (queue_of s u) @ new"
proof (cases e)
  case (CheckIn uuid now m)
  then show ?thesis by simp
next
  case (MdmPut now r)
  then show ?thesis
    by (simp add: mdm_put_def Let_def queue_of_sendNext queue_of_processCommandResponse
        map_cmd_id_update_first split: option.split)
next
  case (PostCommands cid now u' kind p)
  then show ?thesis
    by (simp add: post_commands_def Let_def queue_of_push_command split: option.split)
next
  case (PostQuery cid now u' q)
  then show ?thesis by (simp add: post_query_def Let_def queue_of_push_command)
next
  case (PostLock cid now u' m p)
  then show ?thesis by (simp add: post_lock_def Let_def queue_of_push_command)
qed

section \<open>Round trip of the codec\<close>

subsection \<open>Decimal text of an integer\<close>

lemma of_char_digit_char: "d < 10 \<Longrightarrow> (of_char (digit_char d) :: nat) = 48 + d"
  by (simp add: digit_char_def)

lemma is_digit_digit_char: "d < 10 \<Longrightarrow> is_digit (digit_char d)"
  by (simp add: is_digit_def of_char_digit_char)

lemma digit_val_digit_char: "d < 10 \<Longrightarrow> digit_val (digit_char d) = d"
  by (simp add: digit_val_def of_char_digit_char)

lemma digits_of_digits: "list_all is_digit (digits_of n)"
proof (induction n rule: digits_of.induct)
  case (1 n)
  show ?case
  proof (cases "n < 10")
    case True
    then show ?thesis by (subst digits_of.simps) (simp add: is_digit_digit_char)
  next
    case False
    with 1 show ?thesis by (subst digits_of.simps) (simp add: is_digit_digit_char)
  qed
qed

lemma digits_of_nonempty: "digits_of n \<noteq> []"
  by (subst digits_of.simps) simp

lemma digits_val_snoc: "digits_val (ds @ [c]) = 10 * digits_val ds + digit_val c"
  by (simp add: digits_val_def)

lemma digits_val_digits_of: "digits_val (digits_of n) = n"
proof (induction n rule: digits_of.induct)
  case (1 n)
  show ?case
  proof (cases "n < 10")
    case True
    then show ?thesis
      by (subst digits_of.simps) (simp add: digits_val_def digit_val_digit_char)
  next
    case False
    with 1 have "digits_val (digits_of (n div 10)) = n div 10" by simp
    with False show ?thesis
      by (subst digits_of.simps) (simp add: digits_val_snoc digit_val_digit_char)
  qed
qed

lemma is_digit_facts:
  assumes "is_digit c"
  shows "\<not> is_space c" "c \<noteq> CHR ''<''" "c \<noteq> CHR ''-''" "c \<noteq> CHR ''+''" "c \<noteq> CHR ''.''"
    "c \<noteq> CHR ''I''" "c \<noteq> CHR ''x''" "c \<noteq> CHR ''X''" "c \<noteq> CHR ''o''" "c \<noteq> CHR ''O''"
    "c \<noteq> CHR ''b''" "c \<noteq> CHR ''B''"
  using assms by (auto simp: is_digit_def is_space_def)

lemma trim_id:
  assumes "s \<noteq> []" and "\<not> is_space (hd s)" and "\<not> is_space (last s)"
  shows "trim s = s"
proof -
  have 1: "dropWhile is_space s = s"
    using assms(1,2) by (cases s) auto
  have "rev s \<noteq> []" and "\<not> is_space (hd (rev s))"
    using assms(1,3) by (simp_all add: hd_rev)
  then have "dropWhile is_space (rev s) = rev s"
    by (cases "rev s") auto
  with 1 show ?thesis by (simp add: trim_def)
qed

lemma unsigned_decimal_digits:
  assumes "ds \<noteq> []" and "list_all is_digit ds"
  shows "unsigned_decimal ds = Fin (of_nat (digits_val ds))"
proof -
  have "is_digit (hd ds)" using assms by (cases ds) auto
  then have "hd ds \<noteq> CHR ''I''" by (rule is_digit_facts)
  then have ninf: "ds \<noteq> ''Infinity''" by auto
  have tw: "takeWhile is_digit ds = ds" and dw: "dropWhile is_digit ds = []"
    using assms(2) by (simp_all add: list_all_iff)
  show ?thesis
    using ninf assms(1)
    by (simp add: unsigned_decimal_def tw dw exponent_part_def pow10_def digits_val_def)
qed

lemma nondecimal_digits:
  assumes "list_all is_digit ds"
  shows "nondecimal ds = None"
proof (cases ds)
  case Nil
  then show ?thesis by simp
next
  case (Cons z t)
  show ?thesis
  proof (cases t)
    case Nil
    with Cons show ?thesis by simp
  next
    case (Cons x r)
    with assms \<open>ds = z # t\<close> have "is_digit x" by simp
    from is_digit_facts(7-12)[OF this] Cons \<open>ds = z # t\<close> show ?thesis by simp
  qed
qed

lemma js_Number_digits_of: "js_Number (digits_of n) = Fin (of_nat n)"
proof -
  let ?ds = "digits_of n"
  have ne: "?ds \<noteq> []" by (rule digits_of_nonempty)
  have all: "list_all is_digit ?ds" by (rule digits_of_digits)
  have hd: "is_digit (hd ?ds)" using ne all by (cases ?ds) auto
  have "last ?ds \<in> set ?ds" using ne by simp
  then have lst: "is_digit (last ?ds)" using all by (simp add: list_all_iff)
  have t: "trim ?ds = ?ds"
    using ne is_digit_facts(1)[OF hd] is_digit_facts(1)[OF lst] by (rule trim_id)
  obtain c r where cr: "?ds = c # r" using ne by (cases ?ds) auto
  with hd have "c \<noteq> CHR ''+''" "c \<noteq> CHR ''-''"
    using is_digit_facts(3,4) by auto
  moreover have "digits_val (c # r) = n"
    using digits_val_digits_of[of n] cr by simp
  ultimately show ?thesis
    using t ne cr nondecimal_digits[OF all] unsigned_decimal_digits[OF ne all]
    by (simp add: js_Number_def)
qed

lemma js_Number_neg_digits_of: "js_Number (CHR ''-'' # digits_of n) = Fin (- of_nat n)"
proof -
  let ?ds = "digits_of n"
  have ne: "?ds \<noteq> []" by (rule digits_of_nonempty)
  have all: "list_all is_digit ?ds" by (rule digits_of_digits)
  have "last ?ds \<in> set ?ds" using ne by simp
  then have lst: "is_digit (last ?ds)" using all by (simp add: list_all_iff)
  have "\<not> is_space (CHR ''-'')" by (simp add: is_space_def)
  then have t: "trim (CHR ''-'' # ?ds) = CHR ''-'' # ?ds"
    using is_digit_facts(1)[OF lst] ne by (intro trim_id) simp_all
  have nd: "nondecimal (CHR ''-'' # ?ds) = None"
    by (cases ?ds) simp_all
  show ?thesis
    using t nd unsigned_decimal_digits[OF ne all]
    by (simp add: js_Number_def digits_val_digits_of)
qed

lemma js_Number_int_text: "js_Number (int_text n) = Fin (of_int n)"
proof (cases "n < 0")
  case True
  then have "(of_nat (nat (- n)) :: rat) = - of_int n" by simp
  with True show ?thesis by (simp add: int_text_def js_Number_neg_digits_of)
next
  case False
  then have "(of_nat (nat n) :: rat) = of_int n" by simp
  with False show ?thesis by (simp add: int_text_def js_Number_digits_of)
qed

lemma int_text_no_lt: "CHR ''<'' \<notin> set (int_text n)"
proof -
  have "CHR ''<'' \<notin> set (digits_of m)" for m
    using digits_of_digits[of m] is_digit_facts(2) by (auto simp: list_all_iff)
  then show ?thesis by (simp add: int_text_def)
qed

subsection \<open>Text of a plain entry\<close>

lemma replace_all_absent: "c \<notin> set s \<Longrightarrow> replace_all c rep s = s"
  by (induction s) (auto simp: replace_all_def)

lemma escape_xml_plain:
  "CHR ''&'' \<notin> set s \<Longrightarrow> CHR ''<'' \<notin> set s \<Longrightarrow> CHR ''>'' \<notin> set s \<Longrightarrow> escape_xml s = s"
  by (simp add: escape_xml_def replace_all_absent)

lemma convertValue_body:
  "convertValue numText (JObj kvs) = ''<dict>'' @ concat (map (entry_text numText) kvs) @ ''</dict>''"
proof -
  have "(\<lambda>(k, v). ''<key>'' @ k @ ''</key>'' @ convertValue numText v) = entry_text numText"
    by (auto simp: entry_text_def fun_eq_iff)
  then show ?thesis by simp
qed

text \<open>The three shapes of a plain entry.\<close>

lemma scalar_leaf_cases:
  assumes "scalar_leaf v"
  obtains (bool) b where "v = JBool b"
  | (int) n where "v = JNum (Fin (of_int n))" "\<bar>n\<bar> \<le> 9007199254740991"
  | (str) s where "v = JStr s" "CHR ''&'' \<notin> set s" "CHR ''<'' \<notin> set s" "CHR ''>'' \<notin> set s"
      "js_Number s = NaN"
proof (cases v)
  case (JNum x)
  with assms obtain r where x: "x = Fin r" and r: "r = of_int \<lfloor>r\<rfloor>" and b: "\<bar>r\<bar> \<le> 9007199254740991"
    by (cases x) auto
  have "\<bar>rat_of_int \<lfloor>r\<rfloor>\<bar> \<le> 9007199254740991" using r b by simp
  then have "\<bar>\<lfloor>r\<rfloor>\<bar> \<le> 9007199254740991" by linarith
  with JNum x r int[of "\<lfloor>r\<rfloor>"] show ?thesis by simp
qed (use assms bool str in auto)

lemma convertValue_int:
  assumes "\<bar>n\<bar> \<le> (9007199254740991 :: int)"
  shows "convertValue numText (JNum (Fin (of_int n))) = ''<integer>'' @ int_text n @ ''</integer>''"
proof -
  have "rat_of_int \<bar>n\<bar> \<le> rat_of_int 9007199254740991"
    using assms by (simp only: of_int_le_iff)
  then have "\<bar>rat_of_int n\<bar> \<le> 9007199254740991" by simp
  then show ?thesis by simp
qed

subsection \<open>Searching the closing tag\<close>

lemma behind_behind: "behind a (behind b x) = behind (a @ b) x"
  by (simp add: behind_def split: option.split)

lemma behind_Nil: "behind [] x = x"
  by (simp add: behind_def split: option.split)

lemma search_skip:
  "CHR ''<'' \<notin> set a \<Longrightarrow> search ''</dict>'' (a @ r) = behind a (search ''</dict>'' r)"
  by (induction a) (auto simp: behind_def split: option.split)

lemma search_tags:
  "search ''</dict>'' (''<key>'' @ r) = behind ''<key>'' (search ''</dict>'' r)"
  "search ''</dict>'' (''</key>'' @ r) = behind ''</key>'' (search ''</dict>'' r)"
  "search ''</dict>'' (''<string>'' @ r) = behind ''<string>'' (search ''</dict>'' r)"
  "search ''</dict>'' (''</string>'' @ r) = behind ''</string>'' (search ''</dict>'' r)"
  "search ''</dict>'' (''<integer>'' @ r) = behind ''<integer>'' (search ''</dict>'' r)"
  "search ''</dict>'' (''</integer>'' @ r) = behind ''</integer>'' (search ''</dict>'' r)"
  "search ''</dict>'' (''<true/>'' @ r) = behind ''<true/>'' (search ''</dict>'' r)"
  "search ''</dict>'' (''<false/>'' @ r) = behind ''<false/>'' (search ''</dict>'' r)"
  by (simp_all add: behind_def split: option.split)

lemma search_entry:
  assumes "plain_entry kv"
  shows "search ''</dict>'' (entry_text numText kv @ r) = behind (entry_text numText kv) (search ''</dict>'' r)"
proof -
  obtain k v where kv: "kv = (k, v)" by (cases kv)
  have k: "CHR ''<'' \<notin> set k" and v: "scalar_leaf v"
    using assms kv by (simp_all add: plain_entry_def)
  have key: "search ''</dict>'' (''<key>'' @ k @ ''</key>'' @ x) = behind (''<key>'' @ k @ ''</key>'') (search ''</dict>'' x)" for x
    using search_tags(1)[of "k @ ''</key>'' @ x"] search_skip[OF k, of "''</key>'' @ x"]
      search_tags(2)[of x]
    by (simp add: behind_behind)
  have val: "search ''</dict>'' (convertValue numText v @ r) = behind (convertValue numText v) (search ''</dict>'' r)"
    using v
  proof (cases rule: scalar_leaf_cases)
    case (bool b)
    then show ?thesis
      using search_tags(7,8)[of r] by (cases b) simp_all
  next
    case (int n)
    have "search ''</dict>'' (''<integer>'' @ int_text n @ ''</integer>'' @ r)
        = behind (''<integer>'' @ int_text n @ ''</integer>'') (search ''</dict>'' r)"
      using search_tags(5)[of "int_text n @ ''</integer>'' @ r"]
        search_skip[OF int_text_no_lt, of n "''</integer>'' @ r"] search_tags(6)[of r]
      by (simp add: behind_behind)
    then show ?thesis using int by (simp only: convertValue_int) simp
  next
    case (str s)
    have "search ''</dict>'' (''<string>'' @ s @ ''</string>'' @ r)
        = behind (''<string>'' @ s @ ''</string>'') (search ''</dict>'' r)"
      using search_tags(3)[of "s @ ''</string>'' @ r"]
        search_skip[OF str(3), of "''</string>'' @ r"] search_tags(4)[of r]
      by (simp add: behind_behind)
    then show ?thesis using str by (simp add: escape_xml_plain)
  qed
  show ?thesis
    using key[of "convertValue numText v @ r"] val
    by (simp add: kv entry_text_def behind_behind)
qed

lemma search_entries:
  "list_all plain_entry kvs \<Longrightarrow>
     search ''</dict>'' (concat (map (entry_text numText) kvs) @ r)
       = behind (concat (map (entry_text numText) kvs)) (search ''</dict>'' r)"
proof (induction kvs)
  case Nil
  then show ?case by (simp add: behind_Nil)
next
  case (Cons kv kvs)
  then show ?case
    using search_entry[of kv numText "concat (map (entry_text numText) kvs) @ r"]
    by (simp add: behind_behind)
qed

lemma search_header: "search ''<dict>'' (plist_header @ ''<dict>'' @ r) = Some (plist_header, r)"
  by (simp add: plist_header_def)

lemma dict_content_toPlist:
  assumes "list_all plain_entry kvs"
  shows "dict_content (toPlist numText kvs) = Some (concat (map (entry_text numText) kvs))"
proof -
  let ?body = "concat (map (entry_text numText) kvs)"
  have t: "toPlist numText kvs = plist_header @ ''<dict>'' @ ?body @ ''</dict>'' @ [CHR 0x0A] @ ''</plist>''"
    by (simp only: toPlist_def convertValue_body append_assoc)
  have "search ''</dict>'' (''</dict>'' @ [CHR 0x0A] @ ''</plist>'') = Some ([], [CHR 0x0A] @ ''</plist>'')"
    by simp
  then have "search ''</dict>'' (?body @ ''</dict>'' @ [CHR 0x0A] @ ''</plist>'') = Some (?body, [CHR 0x0A] @ ''</plist>'')"
    using search_entries[OF assms, of numText "''</dict>'' @ [CHR 0x0A] @ ''</plist>''"]
    by (simp add: behind_def)
  then show ?thesis
    using search_header[of "?body @ ''</dict>'' @ [CHR 0x0A] @ ''</plist>''"]
    by (simp only: t dict_content_def option.case prod.case)
qed

subsection \<open>Matching one entry\<close>

lemma takeWhile_upto:
  "c \<notin> set a \<Longrightarrow> takeWhile (\<lambda>x. x \<noteq> c) (a @ c # r) = a"
  by (induction a) auto

lemma dropWhile_upto:
  "c \<notin> set a \<Longrightarrow> dropWhile (\<lambda>x. x \<noteq> c) (a @ c # r) = c # r"
  by (induction a) auto

lemma match_key_part:
  assumes "k \<noteq> []" and "CHR ''<'' \<notin> set k"
  shows "match_entry (''<key>'' @ k @ ''</key>'' @ v) =
     (case match_element (dropWhile is_space v) of
        Some (m3, m4, rest) \<Rightarrow> Some (k, m3, m4, rest)
      | None \<Rightarrow> (case match_literal (dropWhile is_space v) of
                   Some (m3, m4, rest) \<Rightarrow> Some (k, m3, m4, rest)
                 | None \<Rightarrow> None))"
  using assms takeWhile_upto[OF assms(2), of "''/key>'' @ v"] dropWhile_upto[OF assms(2), of "''/key>'' @ v"]
  by (simp add: match_entry_def Let_def)

lemma match_element_text:
  assumes "CHR ''<'' \<notin> set txt"
  shows "match_element (''<string>'' @ txt @ ''</string>'' @ rest) = Some (Some txt, None, rest)"
    and "match_element (''<integer>'' @ txt @ ''</integer>'' @ rest) = Some (Some txt, None, rest)"
  using takeWhile_upto[OF assms, of "''/string>'' @ rest"] dropWhile_upto[OF assms, of "''/string>'' @ rest"]
    takeWhile_upto[OF assms, of "''/integer>'' @ rest"] dropWhile_upto[OF assms, of "''/integer>'' @ rest"]
  by (simp_all add: match_element_def)

lemma entry_follows_no_close:
  assumes "entry_follows rest"
  shows "strip_prefix ''</'' (dropWhile (\<lambda>x. x \<noteq> CHR ''<'') rest) = None"
proof (cases rest)
  case Nil
  then show ?thesis by simp
next
  case (Cons c cs)
  with assms have c: "c = CHR ''<''"
    by (auto simp: entry_follows_def split: if_splits)
  with assms Cons show ?thesis
    by (cases cs) (auto simp: entry_follows_def split: if_splits)
qed

lemma match_element_bool:
  assumes "entry_follows rest"
  shows "match_element (''<true/>'' @ rest) = None"
    and "match_element (''<false/>'' @ rest) = None"
  using entry_follows_no_close[OF assms] by (simp_all add: match_element_def)

lemma match_literal_bool:
  "match_literal (''<true/>'' @ rest) = Some (None, Some ''true'', rest)"
  "match_literal (''<false/>'' @ rest) = Some (None, Some ''false'', rest)"
  by (simp_all add: match_literal_def)

lemma not_space_lt: "\<not> is_space (CHR ''<'')"
  by (simp add: is_space_def)

lemma match_entry_plain:
  assumes "plain_entry (k, v)" and "entry_follows rest"
  shows "\<exists>m3 m4. match_entry (entry_text numText (k, v) @ rest) = Some (k, m3, m4, rest)
           \<and> store_match k m3 m4 result = result(k \<mapsto> v)"
proof -
  have k: "k \<noteq> []" "CHR ''<'' \<notin> set k" and v: "scalar_leaf v"
    and np: "k \<noteq> ''__proto__''"
    using assms(1) by (simp_all add: plain_entry_def)
  note key = match_key_part[OF k]
  from v show ?thesis
  proof (cases rule: scalar_leaf_cases)
    case (bool b)
    show ?thesis
    proof (cases b)
      case True
      have "match_entry (''<key>'' @ k @ ''</key>'' @ ''<true/>'' @ rest) = Some (k, None, Some ''true'', rest)"
        using match_element_bool(1)[OF assms(2)] match_literal_bool(1)[of rest] not_space_lt
        by (simp only: key) simp
      with True bool show ?thesis using np by (simp add: entry_text_def store_match_def assign_primitive_def)
    next
      case False
      have "match_entry (''<key>'' @ k @ ''</key>'' @ ''<false/>'' @ rest) = Some (k, None, Some ''false'', rest)"
        using match_element_bool(2)[OF assms(2)] match_literal_bool(2)[of rest] not_space_lt
        by (simp only: key) simp
      with False bool show ?thesis using np by (simp add: entry_text_def store_match_def assign_primitive_def)
    qed
  next
    case (int n)
    have "match_entry (''<key>'' @ k @ ''</key>'' @ ''<integer>'' @ int_text n @ ''</integer>'' @ rest)
        = Some (k, Some (int_text n), None, rest)"
      using match_element_text(2)[OF int_text_no_lt, of n rest] not_space_lt
      by (simp only: key) simp
    moreover have "store_match k (Some (int_text n)) None result = result(k \<mapsto> v)"
      using int np by (simp add: store_match_def assign_primitive_def js_Number_int_text)
    ultimately show ?thesis
      using int by (simp only: entry_text_def fst_conv snd_conv convertValue_int) simp
  next
    case (str s)
    have "match_entry (''<key>'' @ k @ ''</key>'' @ ''<string>'' @ s @ ''</string>'' @ rest)
        = Some (k, Some s, None, rest)"
      using match_element_text(1)[OF str(3), of rest] not_space_lt
      by (simp only: key) simp
    moreover have "store_match k (Some s) None result = result(k \<mapsto> v)"
      using str np by (simp add: store_match_def assign_primitive_def)
    ultimately show ?thesis
      using str by (simp add: entry_text_def escape_xml_plain)
  qed
qed

subsection \<open>The loop over the entries\<close>

lemma scan_entries_step:
  assumes "match_entry s = Some (k, m3, m4, rest)"
  shows "scan_entries s result = scan_entries rest (store_match k m3 m4 result)"
proof (cases s)
  case Nil
  with assms show ?thesis by (simp add: match_entry_def)
next
  case (Cons c cs)
  with assms show ?thesis by simp
qed

lemma entry_follows_entries: "entry_follows (concat (map (entry_text numText) kvs))"
  by (cases kvs) (simp_all add: entry_follows_def entry_text_def)

lemma scan_entries_plain:
  "list_all plain_entry kvs \<Longrightarrow>
     scan_entries (concat (map (entry_text numText) kvs)) result = result ++ map_of (rev kvs)"
proof (induction kvs arbitrary: result)
  case Nil
  then show ?case by simp
next
  case (Cons kv kvs)
  obtain k v where kv: "kv = (k, v)" by (cases kv)
  let ?rest = "concat (map (entry_text numText) kvs)"
  from Cons.prems kv have p: "plain_entry (k, v)" and ps: "list_all plain_entry kvs" by simp_all
  from match_entry_plain[OF p entry_follows_entries, where numText = numText and result = result]
  obtain m3 m4 where m: "match_entry (entry_text numText (k, v) @ ?rest) = Some (k, m3, m4, ?rest)"
    and st: "store_match k m3 m4 result = result(k \<mapsto> v)" by blast
  have "scan_entries (entry_text numText (k, v) @ ?rest) result = scan_entries ?rest (result(k \<mapsto> v))"
    using scan_entries_step[OF m, of result] st by simp
  also have "\<dots> = result(k \<mapsto> v) ++ map_of (rev kvs)"
    using Cons.IH[OF ps] .
  also have "\<dots> = result ++ map_of (rev (kv # kvs))"
    by (simp add: kv)
  finally show ?case by (simp add: kv)
qed

lemma map_of_rev_distinct: "distinct (map fst xs) \<Longrightarrow> map_of (rev xs) = map_of xs"
proof (induction xs)
  case Nil
  then show ?case by simp
next
  case (Cons x xs)
  obtain k v where x: "x = (k, v)" by (cases x)
  with Cons.prems have "map_of xs k = None"
    by (simp add: map_of_eq_None_iff)
  then have "[k \<mapsto> v] ++ map_of xs = (map_of xs)(k \<mapsto> v)"
    by (auto simp: map_add_def fun_eq_iff split: option.split)
  with Cons x show ?case by simp
qed

text \<open>
  Claim C3, as the code has it. For every message whose keys are distinct, not empty,
  without \<open><\<close> and other than \<open>__proto__\<close>, and whose leaves are booleans, integers
  of the safe range and strings that have none of \<open>&\<close>, \<open><\<close>, \<open>>\<close> and that
  \<open>Number\<close> does not read as a number, decoding the encoding gives back exactly the
  message.
\<close>

theorem plist_round_trip:
  assumes "distinct (map fst kvs)" and "list_all plain_entry kvs"
  shows "parsePlist (toPlist numText kvs) = map_of kvs"
proof -
  have "parsePlist (toPlist numText kvs) = Map.empty ++ map_of (rev kvs)"
    using dict_content_toPlist[OF assms(2)] scan_entries_plain[OF assms(2)]
    by (simp add: parsePlist_def)
  also have "\<dots> = map_of kvs"
    using assms(1) by (simp add: map_of_rev_distinct)
  finally show ?thesis .
qed

theorem plist_round_trip_witness:
  "distinct (map fst
      [(''Status'', JStr ''Acknowledged''), (''Count'', JNum (Fin (- 42))), (''IsSupervised'', JBool False)]) \<and>
   list_all plain_entry
      [(''Status'', JStr ''Acknowledged''), (''Count'', JNum (Fin (- 42))), (''IsSupervised'', JBool False)] \<and>
   parsePlist (toPlist no_text
      [(''Status'', JStr ''Acknowledged''), (''Count'', JNum (Fin (- 42))), (''IsSupervised'', JBool False)])
   = map_of [(''Status'', JStr ''Acknowledged''), (''Count'', JNum (Fin (- 42))), (''IsSupervised'', JBool False)]"
proof -
  let ?m = "[(''Status'', JStr ''Acknowledged''), (''Count'', JNum (Fin (- 42))), (''IsSupervised'', JBool False)]"
  have nan: "js_Number ''Acknowledged'' = NaN"
    by (simp add: js_Number_def trim_def is_space_def unsigned_decimal_def is_digit_def)
  have d: "distinct (map fst ?m)" by simp
  have p: "list_all plain_entry ?m" by (simp add: plain_entry_def nan)
  from plist_round_trip[OF d p, of no_text] d p show ?thesis by blast
qed

text \<open>
  Claim C3 as stated fails: the decoder ignores the tag of a leaf and keeps whatever
  \<open>Number\<close> can read as a number, so the string \<open>42\<close> comes back as the number 42.
\<close>

theorem numeric_string_decoded_as_number:
  "parsePlist (toPlist no_text [(''DeviceName'', JStr ''42'')]) ''DeviceName'' = Some (JNum (Fin 42))"
  by code_simp

text \<open>
  The encoder escapes \<open>&\<close>, \<open><\<close> and \<open>>\<close>; the decoder has no step that undoes it.
  The empty string is read by \<open>Number\<close> as 0.
\<close>

lemma escaped_string_not_unescaped:
  "parsePlist (toPlist no_text [(''DeviceName'', JStr ''R&D'')]) ''DeviceName'' = Some (JStr ''R&amp;D'')"
  by code_simp

text \<open>
  A dictionary inside the message ends the text that is decoded: the first closing tag
  is the inner one, and the entries behind it are lost.
\<close>

lemma nested_dictionary_cuts_message:
  "map (parsePlist (toPlist no_text
      [(''Inner'', JObj [(''Kind'', JStr ''Lock'')]), (''Outer'', JStr ''Lost'')]))
     [''Inner'', ''Kind'', ''Outer'']
   = [None, Some (JStr ''Lock''), None]"
  by code_simp

text \<open>
  The key \<open>__proto__\<close> is not stored: the assignment reaches the setter of
  \<open>Object.prototype\<close>, which ignores a string.
\<close>

lemma proto_key_not_stored:
  "map (parsePlist (toPlist no_text [(''__proto__'', JStr ''x''), (''Kind'', JStr ''Lock'')]))
     [''__proto__'', ''Kind'']
   = [None, Some (JStr ''Lock'')]"
  by code_simp

lemma empty_string_decoded_as_zero:
  "parsePlist (toPlist no_text [(''DeviceName'', JStr [])]) ''DeviceName'' = Some (JNum (Fin 0))"
  by code_simp

end
